theory Spec2Isabelle
  imports Complex_Main "HOL-Library.Sublist"
begin

section \<open>Python strings\<close>

text \<open>
  A Python \<open>str\<close> is a sequence of Unicode code points, and every string operation of
  the program (\<open>strip\<close>, \<open>in\<close>, \<open>replace\<close>, slicing, \<open>len\<close>) counts code points.
  A string is therefore a list of code points; \<open>U\<close> turns an ASCII literal into one.
\<close>

type_synonym pystr = "nat list"

definition U :: "string \<Rightarrow> pystr" where
  "U s = map of_char s"

definition NL :: nat where "NL = 10"
definition SP :: nat where "SP = 32"

definition BSL :: nat where "BSL = 92"
definition DQ :: nat where "DQ = 34"

text \<open>
  \<open>str.isspace\<close> for one code point: the characters \<open>str.strip()\<close> removes
  (tab to carriage return, the separators U+001C..U+001F, space, U+0085, U+00A0, U+1680,
  U+2000..U+200A, U+2028, U+2029, U+202F, U+205F, U+3000).
\<close>

definition py_isspace :: "nat \<Rightarrow> bool" where
  "py_isspace c =
     (c \<in> set [9, 10, 11, 12, 13, 28, 29, 30, 31, 32, 133, 160, 5760, 8232, 8233, 8239, 8287, 12288]
      \<or> (8192 \<le> c \<and> c \<le> 8202))"

definition lstrip :: "pystr \<Rightarrow> pystr" where
  "lstrip s = dropWhile py_isspace s"

definition rstrip :: "pystr \<Rightarrow> pystr" where
  "rstrip s = rev (dropWhile py_isspace (rev s))"

definition strip :: "pystr \<Rightarrow> pystr" where
  "strip s = rstrip (lstrip s)"

text \<open>\<open>needle in hay\<close> on strings: \<open>needle\<close> occurs as a contiguous substring.\<close>

fun contains :: "pystr \<Rightarrow> pystr \<Rightarrow> bool" where
  "contains needle [] = (needle = [])"
| "contains needle (c # cs) = (prefix needle (c # cs) \<or> contains needle cs)"

text \<open>
  \<open>s.replace(old, new)\<close>: every non-overlapping occurrence of \<open>old\<close>, found from the
  left, becomes \<open>new\<close>.
\<close>

function replace :: "pystr \<Rightarrow> pystr \<Rightarrow> pystr \<Rightarrow> pystr" where
  "replace [] new s = new @ concat (map (\<lambda>c. c # new) s)"
| "replace (x # xs) new [] = []"
| "replace (x # xs) new (c # cs) =
     (if prefix (x # xs) (c # cs) then new @ replace (x # xs) new (drop (length xs) cs)
      else c # replace (x # xs) new cs)"
  by pat_completeness auto
termination
  by (relation "measure (\<lambda>(old, new, s). length s)") auto

section \<open>Formatting cleanup (\<open>clean_response_formatting\<close>)\<close>

text \<open>
  The first \<open>re.sub\<close> of the source (pattern: three or more newlines; replacement: two
  newlines): scanning from the left, a position where three newlines start matches the
  whole run of newlines (the quantifier is greedy) and the run becomes two newlines; any
  other character is copied. The second \<open>re.sub\<close> (pattern: two or more spaces;
  replacement: one space) likewise turns every run of spaces into one space.
\<close>

function sub_newlines :: "pystr \<Rightarrow> pystr" where
  "sub_newlines (a # b # c # s) =
     (if a = NL \<and> b = NL \<and> c = NL then NL # NL # sub_newlines (dropWhile (\<lambda>x. x = NL) s)
      else a # sub_newlines (b # c # s))"
| "sub_newlines [a, b] = [a, b]"
| "sub_newlines [a] = [a]"
| "sub_newlines [] = []"
  by pat_completeness auto
termination
  by (relation "measure length") (auto simp: less_Suc_eq_le intro: le_trans [OF length_dropWhile_le])

function sub_spaces :: "pystr \<Rightarrow> pystr" where
  "sub_spaces (a # b # s) =
     (if a = SP \<and> b = SP then SP # sub_spaces (dropWhile (\<lambda>x. x = SP) s)
      else a # sub_spaces (b # s))"
| "sub_spaces [a] = [a]"
| "sub_spaces [] = []"
  by pat_completeness auto
termination
  by (relation "measure length") (auto simp: less_Suc_eq_le intro: le_trans [OF length_dropWhile_le])

text \<open>
  Lines 956--976, for a \<open>str\<close> argument: the empty string is returned as it is
  (\<open>if not content\<close>); otherwise the four removals, the two substitutions, the two
  unescapings (backslash quote, backslash n) and \<open>strip\<close>, in the source's order.
\<close>

definition clean_response_formatting :: "pystr \<Rightarrow> pystr" where
  "clean_response_formatting content =
     (if content = [] then content
      else let c1 = replace (U ''*'') [] content;
               c2 = replace (U ''_'') [] c1;
               c3 = replace (U ''**'') [] c2;
               c4 = replace (U ''__'') [] c3;
               c5 = sub_newlines c4;
               c6 = sub_spaces c5;
               c7 = replace [BSL, DQ] [DQ] c6;
               c8 = replace [BSL, 110] [NL] c7
           in strip c8)"


lemma replace_single: "replace [x] [] s = filter (\<lambda>c. c \<noteq> x) s"
  by (induction s) auto

lemma replace_absent: "x \<notin> set s \<Longrightarrow> replace (x # xs) new s = s"
  by (induction s) auto

lemma strip_sublist: "sublist (strip s) s"
proof -
  have a: "suffix (lstrip s) s"
    unfolding lstrip_def by (rule suffix_dropWhile)
  have "suffix (dropWhile py_isspace (rev (lstrip s))) (rev (lstrip s))"
    by (rule suffix_dropWhile)
  then have b: "prefix (strip s) (lstrip s)"
    unfolding strip_def rstrip_def by (metis rev_rev_ident suffix_to_prefix)
  from a b show ?thesis
    by (meson prefix_imp_sublist suffix_imp_sublist sublist_order.order_trans)
qed

lemma strip_set: "set (strip s) \<subseteq> set s"
  using strip_sublist [of s] by (rule set_mono_sublist)

lemma strip_ends:
  assumes "strip s \<noteq> []"
  shows "\<not> py_isspace (hd (strip s))" and "\<not> py_isspace (last (strip s))"
proof -
  let ?l = "lstrip s"
  let ?r = "dropWhile py_isspace (rev ?l)"
  have r: "strip s = rev ?r" by (simp add: strip_def rstrip_def)
  with assms have rne: "?r \<noteq> []" by simp
  then have "\<not> py_isspace (hd ?r)" by (rule hd_dropWhile)
  then show "\<not> py_isspace (last (strip s))"
    using rne by (simp add: r last_rev)
  have lne: "?l \<noteq> []" using rne by auto
  then have hl: "\<not> py_isspace (hd ?l)" unfolding lstrip_def by (rule hd_dropWhile)
  have "suffix ?r (rev ?l)" by (rule suffix_dropWhile)
  then have "prefix (rev ?r) ?l" by (metis rev_rev_ident suffix_to_prefix)
  then have "hd (rev ?r) = hd ?l" using rne
    by (metis hd_append2 prefix_def rev_is_Nil_conv)
  then show "\<not> py_isspace (hd (strip s))" using hl by (simp add: r)
qed

lemma strip_fixed:
  assumes "s = [] \<or> (\<not> py_isspace (hd s) \<and> \<not> py_isspace (last s))"
  shows "strip s = s"
proof (cases "s = []")
  case True
  then show ?thesis by (simp add: strip_def lstrip_def rstrip_def)
next
  case False
  with assms have h: "\<not> py_isspace (hd s)" and l: "\<not> py_isspace (last s)" by auto
  from False h have "lstrip s = s"
    unfolding lstrip_def by (cases s) auto
  moreover from False l have "dropWhile py_isspace (rev s) = rev s"
    by (cases "rev s") (auto simp: last_rev [symmetric] hd_rev)
  ultimately show ?thesis by (simp add: strip_def rstrip_def)
qed

lemma strip_idem: "strip (strip s) = strip s"
  using strip_ends [of s] by (intro strip_fixed) blast

lemma sub_newlines_take2: "take 2 (sub_newlines s) = take 2 s"
proof (induction s rule: sub_newlines.induct)
  case (1 a b c s)
  show ?case
  proof (cases "a = NL \<and> b = NL \<and> c = NL")
    case True
    then show ?thesis by (simp add: numeral_2_eq_2 sub_newlines.simps(1))
  next
    case False
    with 1(2) have "take 2 (sub_newlines (b # c # s)) = [b, c]" by (simp add: numeral_2_eq_2)
    then have "take 1 (sub_newlines (b # c # s)) = [b]"
      by (metis One_nat_def take_Suc_Cons take_0 take_take min.absorb1 one_le_numeral)
    with False show ?thesis by (simp add: numeral_2_eq_2 sub_newlines.simps(1))
  qed
qed simp_all


definition nl3 :: pystr where "nl3 = [NL, NL, NL]"
definition sp2 :: pystr where "sp2 = [SP, SP]"

lemma sub_newlines_skip:
  "\<not> (a = NL \<and> b = NL \<and> c = NL) \<Longrightarrow> sub_newlines (a # b # c # s) = a # sub_newlines (b # c # s)"
  by auto

lemma sub_newlines_match:
  "sub_newlines (NL # NL # NL # s) = NL # NL # sub_newlines (dropWhile (\<lambda>x. x = NL) s)"
  by simp

lemma sub_spaces_skip:
  "\<not> (a = SP \<and> b = SP) \<Longrightarrow> sub_spaces (a # b # s) = a # sub_spaces (b # s)"
  by auto

lemma sub_spaces_match:
  "sub_spaces (SP # SP # s) = SP # sub_spaces (dropWhile (\<lambda>x. x = SP) s)"
  by simp

lemma prefix_Cons_left: "prefix (x # xs) ys \<longleftrightarrow> (\<exists>zs. ys = x # zs \<and> prefix xs zs)"
  by (cases ys) auto

declare sub_newlines.simps(1) [simp del] sub_spaces.simps(1) [simp del]

lemma sub_newlines_fixed: "\<not> sublist nl3 s \<Longrightarrow> sub_newlines s = s"
proof (induction s rule: sub_newlines.induct)
  case (1 a b c s)
  have "\<not> (a = NL \<and> b = NL \<and> c = NL)"
    using 1(3) by (auto simp: nl3_def sublist_Cons_right)
  moreover have "\<not> sublist nl3 (b # c # s)"
    using 1(3) by (simp add: sublist_Cons_right)
  ultimately show ?case using 1(2) by (simp add: sub_newlines_skip)
qed simp_all

lemma sub_newlines_free: "\<not> sublist nl3 (sub_newlines s)"
proof (induction s rule: sub_newlines.induct)
  case (1 a b c s)
  show ?case
  proof (cases "a = NL \<and> b = NL \<and> c = NL")
    case True
    define r where "r = dropWhile (\<lambda>x. x = NL) s"
    have ih: "\<not> sublist nl3 (sub_newlines r)" using 1(1) True by (simp add: r_def)
    have "r = [] \<or> hd r \<noteq> NL"
      unfolding r_def using hd_dropWhile [of "\<lambda>x. x = NL" s] by blast
    moreover have "take 2 (sub_newlines r) = take 2 r" by (rule sub_newlines_take2)
    ultimately have "\<not> prefix [NL] (sub_newlines r)"
      by (cases r; cases "sub_newlines r") (auto simp: numeral_2_eq_2)
    then have "\<And>t. sub_newlines r \<noteq> NL # t" by auto
    then have "\<not> sublist nl3 (NL # NL # sub_newlines r)"
      using ih by (auto simp: nl3_def sublist_Cons_right prefix_Cons_left)
    then show ?thesis using True by (simp add: r_def sub_newlines_match)
  next
    case False
    have ih: "\<not> sublist nl3 (sub_newlines (b # c # s))" using 1(2) False by blast
    have "take 2 (sub_newlines (b # c # s)) = [b, c]"
      using sub_newlines_take2 [of "b # c # s"] by (simp add: numeral_2_eq_2)
    then have "\<not> prefix nl3 (a # sub_newlines (b # c # s))"
      using False by (cases "sub_newlines (b # c # s)"; cases "tl (sub_newlines (b # c # s))")
        (auto simp: nl3_def numeral_2_eq_2)
    then show ?thesis using ih by (simp add: sublist_Cons_right sub_newlines_skip [OF False])
  qed
qed (simp_all add: nl3_def sublist_Cons_right)

lemma sub_spaces_hd: "take 1 (sub_spaces s) = take 1 s"
  by (induction s rule: sub_spaces.induct) (auto simp: sub_spaces.simps(1))

lemma sub_spaces_fixed: "\<not> sublist sp2 s \<Longrightarrow> sub_spaces s = s"
proof (induction s rule: sub_spaces.induct)
  case (1 a b s)
  have "\<not> (a = SP \<and> b = SP)"
    using 1(3) by (auto simp: sp2_def sublist_Cons_right)
  moreover have "\<not> sublist sp2 (b # s)"
    using 1(3) by (simp add: sublist_Cons_right)
  ultimately show ?case using 1(2) by (simp add: sub_spaces_skip)
qed simp_all

lemma sub_spaces_free: "\<not> sublist sp2 (sub_spaces s)"
proof (induction s rule: sub_spaces.induct)
  case (1 a b s)
  show ?case
  proof (cases "a = SP \<and> b = SP")
    case True
    define r where "r = dropWhile (\<lambda>x. x = SP) s"
    have ih: "\<not> sublist sp2 (sub_spaces r)" using 1(1) True by (simp add: r_def)
    have "r = [] \<or> hd r \<noteq> SP"
      unfolding r_def using hd_dropWhile [of "\<lambda>x. x = SP" s] by blast
    moreover have "take 1 (sub_spaces r) = take 1 r" by (rule sub_spaces_hd)
    ultimately have "\<not> prefix [SP] (sub_spaces r)"
      by (cases r; cases "sub_spaces r") auto
    then have "\<And>t. sub_spaces r \<noteq> SP # t" by auto
    then have "\<not> sublist sp2 (SP # sub_spaces r)"
      using ih by (auto simp: sp2_def sublist_Cons_right prefix_Cons_left)
    then show ?thesis using True by (simp add: r_def sub_spaces_match)
  next
    case False
    have ih: "\<not> sublist sp2 (sub_spaces (b # s))" using 1(2) False by blast
    have "take 1 (sub_spaces (b # s)) = [b]"
      using sub_spaces_hd [of "b # s"] by simp
    then have "\<not> prefix sp2 (a # sub_spaces (b # s))"
      using False by (cases "sub_spaces (b # s)") (auto simp: sp2_def)
    then show ?thesis using ih by (simp add: sublist_Cons_right sub_spaces_skip [OF False])
  qed
qed (simp_all add: sp2_def sublist_Cons_right)

lemma sub_spaces_set: "set (sub_spaces s) \<subseteq> set s"
proof (induction s rule: sub_spaces.induct)
  case (1 a b s)
  have "set (dropWhile (\<lambda>x. x = SP) s) \<subseteq> set s" by (rule set_dropWhileD [THEN subsetI])
  with 1 show ?case by (auto simp: sub_spaces.simps(1))
qed simp_all

lemma sub_newlines_set: "set (sub_newlines s) \<subseteq> set s"
proof (induction s rule: sub_newlines.induct)
  case (1 a b c s)
  have "set (dropWhile (\<lambda>x. x = NL) s) \<subseteq> set s" by (rule set_dropWhileD [THEN subsetI])
  with 1 show ?case by (auto simp: sub_newlines.simps(1))
qed simp_all

lemma sub_spaces_keeps_nl3: "sublist nl3 (sub_spaces s) \<Longrightarrow> sublist nl3 s"
proof (induction s rule: sub_spaces.induct)
  case (1 a b s)
  show ?case
  proof (cases "a = SP \<and> b = SP")
    case True
    define r where "r = dropWhile (\<lambda>x. x = SP) s"
    have "sublist nl3 (SP # sub_spaces r)" using 1(3) True by (simp add: r_def sub_spaces_match)
    then have "sublist nl3 (sub_spaces r)"
      by (auto simp: sublist_Cons_right nl3_def SP_def NL_def)
    then have "sublist nl3 r" using 1(1) True by (simp add: r_def)
    moreover have "suffix r s" unfolding r_def by (rule suffix_dropWhile)
    ultimately have "sublist nl3 s"
      by (meson suffix_imp_sublist sublist_order.order_trans)
    then show ?thesis by (simp add: sublist_Cons_right)
  next
    case False
    then have s: "sublist nl3 (a # sub_spaces (b # s))" using 1(3) by (simp add: sub_spaces_skip)
    show ?thesis
    proof (cases "prefix nl3 (a # sub_spaces (b # s))")
      case True
      then obtain t where t: "sub_spaces (b # s) = NL # NL # t" and a: "a = NL"
        by (auto simp: nl3_def prefix_Cons_left)
      then have b: "b = NL" using sub_spaces_hd [of "b # s"] by simp
      have "sub_spaces (b # s) = b # sub_spaces s"
        using b by (cases s) (auto simp: SP_def NL_def sub_spaces_skip)
      then have "sub_spaces s = NL # t" using t by simp
      then have "take 1 s = [NL]" using sub_spaces_hd [of s] by simp
      then obtain s' where "s = NL # s'" by (cases s) auto
      then show ?thesis using a b by (simp add: nl3_def sublist_Cons_right)
    next
      case False
      with s have "sublist nl3 (sub_spaces (b # s))" by (simp add: sublist_Cons_right)
      then have "sublist nl3 (b # s)" using 1(2) \<open>\<not> (a = SP \<and> b = SP)\<close> by blast
      then show ?thesis by (simp add: sublist_Cons_right)
    qed
  qed
qed simp_all


definition clean_core :: "pystr \<Rightarrow> pystr" where
  "clean_core s = sub_spaces (sub_newlines (filter (\<lambda>c. c \<noteq> 95) (filter (\<lambda>c. c \<noteq> 42) s)))"

lemma clean_no_backslash:
  assumes "BSL \<notin> set s"
  shows "clean_response_formatting s = (if s = [] then [] else strip (clean_core s))"
proof -
  let ?c2 = "filter (\<lambda>c. c \<noteq> 95) (filter (\<lambda>c. c \<noteq> 42) s)"
  have star: "42 \<notin> set ?c2" and under: "95 \<notin> set ?c2" by auto
  have c6: "BSL \<notin> set (clean_core s)"
    unfolding clean_core_def using assms sub_spaces_set sub_newlines_set
    by (metis (no_types, lifting) filter_is_subset subsetD)
  show ?thesis
    using star under c6
    by (simp add: clean_response_formatting_def U_def replace_single replace_absent Let_def
        clean_core_def)
qed

lemma clean_core_fixed:
  assumes "42 \<notin> set t" "95 \<notin> set t" "\<not> sublist nl3 t" "\<not> sublist sp2 t"
  shows "clean_core t = t"
proof -
  have "filter (\<lambda>c. c \<noteq> 95) (filter (\<lambda>c. c \<noteq> 42) t) = t"
    using assms(1,2) by (auto simp: filter_id_conv)
  then show ?thesis
    using assms(3,4) by (simp add: clean_core_def sub_newlines_fixed sub_spaces_fixed)
qed

lemma clean_core_props:
  "42 \<notin> set (clean_core s)" "95 \<notin> set (clean_core s)"
  "\<not> sublist nl3 (clean_core s)" "\<not> sublist sp2 (clean_core s)"
proof -
  let ?c2 = "filter (\<lambda>c. c \<noteq> 95) (filter (\<lambda>c. c \<noteq> 42) s)"
  have sub: "set (clean_core s) \<subseteq> set ?c2"
    unfolding clean_core_def using sub_spaces_set sub_newlines_set by blast
  then show "42 \<notin> set (clean_core s)" "95 \<notin> set (clean_core s)" by auto
  show "\<not> sublist nl3 (clean_core s)"
    unfolding clean_core_def using sub_spaces_keeps_nl3 sub_newlines_free by blast
  show "\<not> sublist sp2 (clean_core s)"
    unfolding clean_core_def by (rule sub_spaces_free)
qed

text \<open>
  C4 (as the code has it). On every string without a backslash the cleanup is idempotent:
  cleaning the cleaned string changes nothing.
\<close>

theorem clean_idempotent_no_backslash:
  assumes "BSL \<notin> set s"
  shows "clean_response_formatting (clean_response_formatting s) = clean_response_formatting s"
proof (cases "s = []")
  case True
  then show ?thesis by (simp add: clean_response_formatting_def)
next
  case False
  let ?t = "strip (clean_core s)"
  have t: "clean_response_formatting s = ?t"
    using assms False by (simp add: clean_no_backslash)
  have sl: "sublist ?t (clean_core s)" by (rule strip_sublist)
  have st: "set ?t \<subseteq> set (clean_core s)" by (rule strip_set)
  have bs: "BSL \<notin> set (clean_core s)"
    using assms sub_spaces_set sub_newlines_set unfolding clean_core_def
    by (metis (no_types, lifting) filter_is_subset subsetD)
  have "BSL \<notin> set ?t" using st bs by blast
  then have "clean_response_formatting ?t = (if ?t = [] then [] else strip (clean_core ?t))"
    by (rule clean_no_backslash)
  moreover have "clean_core ?t = ?t"
  proof (rule clean_core_fixed)
    show "42 \<notin> set ?t" "95 \<notin> set ?t" using st clean_core_props(1,2) [of s] by blast+
    show "\<not> sublist nl3 ?t" "\<not> sublist sp2 ?t"
      using sl clean_core_props(3,4) [of s] by (meson sublist_order.order_trans)+
  qed
  ultimately show ?thesis by (simp add: t strip_idem)
qed

lemmas exec_simps = clean_response_formatting_def U_def strip_def lstrip_def rstrip_def
  py_isspace_def SP_def NL_def BSL_def DQ_def sub_newlines.simps(1) sub_spaces.simps(1)

theorem clean_idempotent_no_backslash_witness:
  "BSL \<notin> set (U ''  a **b**   c__d  '')
   \<and> clean_response_formatting (U ''  a **b**   c__d  '') = U ''a b cd''
   \<and> clean_response_formatting (U ''a b cd'') = U ''a b cd''"
  using clean_idempotent_no_backslash [of "U ''  a **b**   c__d  ''"]
  by (simp add: exec_simps)

text \<open>
  C4 as stated fails: on the three characters backslash, backslash, double quote the first
  cleanup unescapes the quote and leaves backslash, quote; the second cleanup unescapes
  again and leaves the quote alone.
\<close>

theorem clean_not_idempotent:
  "clean_response_formatting (clean_response_formatting [BSL, BSL, DQ])
     \<noteq> clean_response_formatting [BSL, BSL, DQ]"
  by (simp add: exec_simps)


section \<open>The pass-through buffer (\<open>read_claude_output\<close>)\<close>

text \<open>
  Lines 157--160 of \<open>simple_tui.py\<close>: the lines of the chunk just read are appended and,
  when the buffer then holds more than 1000 lines, it is cut to its last 500
  (\<open>buf[-500:]\<close>). The argument \<open>new_lines\<close> is \<open>data.splitlines()\<close>.
\<close>

definition extend_buffer :: "pystr list \<Rightarrow> pystr list \<Rightarrow> pystr list" where
  "extend_buffer buf new_lines =
     (let b = buf @ new_lines
      in if length b > 1000 then drop (length b - 500) b else b)"

text \<open>The reader thread: one \<open>extend_buffer\<close> per non-empty read, from the empty buffer.\<close>

definition read_claude_output :: "pystr list list \<Rightarrow> pystr list" where
  "read_claude_output reads = foldl extend_buffer [] reads"

lemma keep_last_length:
  "length (if length b > 1000 then drop (length b - 500) b else b) \<le> 1000"
  "1000 < length b \<Longrightarrow> length (drop (length b - 500) b) = 500"
  for b :: "pystr list"
  by auto

lemma extend_buffer_le: "length (extend_buffer buf new_lines) \<le> 1000"
  unfolding extend_buffer_def Let_def by (rule keep_last_length(1))

lemma read_claude_output_snoc:
  "read_claude_output (reads @ [r]) = extend_buffer (read_claude_output reads) r"
  by (simp add: read_claude_output_def)

text \<open>
  C6 (as the code has it). After every append step the buffer holds at most 1000 lines,
  also along a whole run of the reader. When the append would push it past 1000, the
  buffer becomes exactly the last 500 lines of old buffer plus new lines: its length is
  500, not 500 plus the number of new lines. Otherwise nothing is evicted.
\<close>

theorem pty_buffer_bounded:
  "length (extend_buffer buf new_lines) \<le> 1000
   \<and> length (read_claude_output reads) \<le> 1000
   \<and> (1000 < length (buf @ new_lines) \<longrightarrow>
        length (extend_buffer buf new_lines) = 500
        \<and> suffix (extend_buffer buf new_lines) (buf @ new_lines))
   \<and> (length (buf @ new_lines) \<le> 1000 \<longrightarrow> extend_buffer buf new_lines = buf @ new_lines)"
proof -
  have run: "length (read_claude_output reads) \<le> 1000"
  proof (cases reads rule: rev_cases)
    case Nil
    then show ?thesis by (simp add: read_claude_output_def)
  next
    case (snoc rs r)
    then show ?thesis by (simp only: read_claude_output_snoc extend_buffer_le)
  qed
  have over: "1000 < length (buf @ new_lines) \<longrightarrow>
        length (extend_buffer buf new_lines) = 500
        \<and> suffix (extend_buffer buf new_lines) (buf @ new_lines)"
    unfolding extend_buffer_def Let_def
    using keep_last_length(2) [of "buf @ new_lines"] suffix_drop [of _ "buf @ new_lines"]
    by (simp del: length_append drop_append)
  have under: "length (buf @ new_lines) \<le> 1000 \<longrightarrow> extend_buffer buf new_lines = buf @ new_lines"
    by (simp add: extend_buffer_def Let_def)
  show ?thesis
    using run over under extend_buffer_le by blast
qed

theorem pty_buffer_bounded_witness:
  "1000 < length (replicate 1000 ([]::pystr) @ [U ''x''])
   \<and> length (extend_buffer (replicate 1000 []) [U ''x'']) = 500
   \<and> length ([U ''a''] @ [U ''b'']) \<le> 1000
   \<and> extend_buffer [U ''a''] [U ''b''] = [U ''a'', U ''b'']"
  using pty_buffer_bounded [of "replicate 1000 []" "[U ''x'']" "[]"]
    pty_buffer_bounded [of "[U ''a'']" "[U ''b'']" "[]"]
  by simp

text \<open>
  C6 as stated fails: a full buffer of 1000 lines that receives one more line is cut to
  500 lines, not to 500 plus the one new line.
\<close>

theorem pty_buffer_counterexample:
  "length (extend_buffer (replicate 1000 []) [U ''x'']) \<noteq> 500 + length [U ''x'']"
  by (simp add: extend_buffer_def Let_def del: drop_append)


section \<open>Parsed JSON values\<close>

text \<open>
  What \<open>json.loads\<close> returns. A \<open>dict\<close> is an association list, looked up by key.
\<close>

datatype json =
    JNull
  | JBool bool
  | JInt int
  | JFloat real
  | JStr pystr
  | JList "json list"
  | JDict "(pystr \<times> json) list"

text \<open>
  The exceptions of the model. \<open>json.loads\<close> ends in one of three ways: it returns
  a value, it raises \<open>JSONDecodeError\<close>, or it raises something else (\<open>ValueError\<close>
  on an integer of too many digits, \<open>RecursionError\<close> on deep nesting).
\<close>

datatype exc = TypeError | AttributeError | ValueError | RecursionError | CursesError

datatype load_result = Parsed json | DecodeError | LoadError exc

fun truthy :: "json \<Rightarrow> bool" where
  "truthy JNull = False"
| "truthy (JBool b) = b"
| "truthy (JInt n) = (n \<noteq> 0)"
| "truthy (JFloat r) = (r \<noteq> 0)"
| "truthy (JStr s) = (s \<noteq> [])"
| "truthy (JList l) = (l \<noteq> [])"
| "truthy (JDict d) = (d \<noteq> [])"

definition dict_get :: "(pystr \<times> json) list \<Rightarrow> pystr \<Rightarrow> json \<Rightarrow> json" where
  "dict_get d k dflt = (case map_of d k of Some v \<Rightarrow> v | None \<Rightarrow> dflt)"

fun py_get :: "json \<Rightarrow> pystr \<Rightarrow> json \<Rightarrow> exc + json" where
  "py_get (JDict d) k dflt = Inr (dict_get d k dflt)"
| "py_get _ k dflt = Inl AttributeError"

fun py_in :: "pystr \<Rightarrow> json \<Rightarrow> exc + bool" where
  "py_in x (JStr s) = Inr (contains x s)"
| "py_in x (JList l) = Inr (JStr x \<in> set l)"
| "py_in x (JDict d) = Inr (x \<in> set (map fst d))"
| "py_in x _ = Inl TypeError"

fun py_strip :: "json \<Rightarrow> exc + pystr" where
  "py_strip (JStr s) = Inr (strip s)"
| "py_strip _ = Inl AttributeError"

definition ascii_lower :: "nat \<Rightarrow> nat" where
  "ascii_lower c = (if 65 \<le> c \<and> c \<le> 90 then c + 32 else c)"

fun lower_contains_error :: "json \<Rightarrow> exc + bool" where
  "lower_contains_error (JStr s) = Inr (contains (U ''error'') (map ascii_lower s))"
| "lower_contains_error _ = Inl AttributeError"

definition bnd :: "exc + 'a \<Rightarrow> ('a \<Rightarrow> exc + 'b) \<Rightarrow> exc + 'b" where
  "bnd m f = (case m of Inl e \<Rightarrow> Inl e | Inr v \<Rightarrow> f v)"

fun any_in :: "pystr list \<Rightarrow> json \<Rightarrow> exc + bool" where
  "any_in [] m = Inr False"
| "any_in (k # ks) m = bnd (py_in k m) (\<lambda>b. if b then Inr True else any_in ks m)"

definition debug_noise_keywords :: "pystr list" where
  "debug_noise_keywords = map U
     [''ollama_request_enqueued'', ''ollama_queue_reordered'',
      ''ollama_request_processing_start'', ''ollama_api_call_start'',
      ''ollama_model_switch_delay'', ''ollama_queue_processing_start'',
      ''ollama_queue_processing_complete'', ''intent_calling_gemma'',
      ''intent_gemma_response'', ''intent_parsing_response'',
      ''intent_parsed_successfully'', ''deepseek_json_debug'',
      ''error_context_agent_initializing'', ''error_context_agent_initialized'',
      ''component_status_changed'', ''processMessage_start'',
      ''input_routing_start'', ''input_routing_complete'',
      ''recursive_validation_iteration'', ''recursive_validation_analysis'',
      ''recursive_validation_satisfied'']"

definition important_keywords :: "pystr list" where
  "important_keywords = map U
     [''system_state_changed'', ''intelligence_router_start'',
      ''intelligence_router_complete'', ''tools_agent_start'',
      ''tools_agent_executing_step'', ''subconscious_reasoning_start'',
      ''subconscious_reasoning_complete'', ''personality_interpretation_start'',
      ''personality_interpretation_success'', ''ollama_request_success'']"

definition should_ignore_message :: "json \<Rightarrow> json \<Rightarrow> exc + bool" where
  "should_ignore_message message msg_type =
     (if msg_type = JStr (U ''error'') then
        bnd (py_in (U ''all_json_blocks_failed'') message)
          (\<lambda>b. if b then Inr True else py_in (U ''deepseek_json_debug'') message)
      else if msg_type \<noteq> JStr (U ''engine'') then Inr False
      else
        bnd (any_in debug_noise_keywords message)
          (\<lambda>noise. if noise then Inr True
             else bnd (any_in important_keywords message)
               (\<lambda>important. if important then Inr False else Inr True)))"


section \<open>Session state\<close>

record message =
  role :: pystr
  content :: json
  timestamp :: real
  immediate :: bool
  source :: "json option"
  tool :: "json option"

record state =
  messages :: "message list"
  status :: pystr
  provider :: pystr
  personality :: pystr
  thinking :: bool
  copy_mode :: bool
  conversation_context :: bool
  tools_enabled :: bool
  view_mode :: pystr
  error_contexts_loaded :: bool
  error_context_count :: int
  file_operations_active :: bool
  recovery_attempts :: int
  connection_status :: pystr
  current_tool_activity :: pystr
  tool_progress_dots :: nat
  tool_start_time :: "real option"
  last_response_time :: real
  total_messages_processed :: nat

text \<open>
  What the program takes from outside its own source: \<open>json.loads\<close>, the text an
  f-string gives a value that is not a string, the one-decimal rendering of a float, the
  text \<open>str(e)\<close> of an exception raised on a value, the clock (\<open>time.time()\<close>,
  \<open>datetime.now()\<close>), read as one value for the call at hand, and the redraw:
  \<open>draw_screen\<close> (lines 242--424) changes no field of the session state, and whether
  it returns (\<open>None\<close>) or raises on a state (a \<open>curses.error\<close>, or the
  \<open>AttributeError\<close> of \<open>wrap_text\<close> on a message content that is not a string) is
  taken as a function of that state.
\<close>

record env =
  loads :: "pystr \<Rightarrow> load_result"
  fmt :: "json \<Rightarrow> pystr"
  fmt1 :: "real \<Rightarrow> pystr"
  exc_str :: "exc \<Rightarrow> json \<Rightarrow> pystr"
  now :: real
  draw :: "state \<Rightarrow> exc option"

definition py_str :: "env \<Rightarrow> json \<Rightarrow> pystr" where
  "py_str e v = (case v of JStr s \<Rightarrow> s | _ \<Rightarrow> fmt e v)"

fun join :: "pystr \<Rightarrow> pystr list \<Rightarrow> pystr" where
  "join sep [] = []"
| "join sep [x] = x"
| "join sep (x # y # ys) = x @ sep @ join sep (y # ys)"

definition mk_message :: "env \<Rightarrow> pystr \<Rightarrow> json \<Rightarrow> message" where
  "mk_message e r c =
     \<lparr>role = r, content = c, timestamp = now e, immediate = False, source = None, tool = None\<rparr>"

definition append_message :: "message \<Rightarrow> state \<Rightarrow> state" where
  "append_message m st = st\<lparr>messages := messages st @ [m]\<rparr>"

text \<open>Lines 177--240: the text \<open>update_status\<close> builds, and its assignment to the status line.\<close>

definition status_text :: "env \<Rightarrow> state \<Rightarrow> pystr" where
  "status_text e st =
     (let context_icon = (if conversation_context st then [0x1F9E0] else [0x1F504]);
          tools_display =
            (if provider st = U ''local''
             then SP # (if tools_enabled st then [0x1F527] else [0x1F4AC]) else []);
          view_icon = (if view_mode st = U ''claude_raw'' then [0x1F527] else [0x1F3AD]);
          t0 = provider st @ U '' | '' @ view_icon @ personality st @ U '' | ''
                 @ context_icon @ tools_display;
          status_indicators =
            (if error_contexts_loaded st
             then [[0x26A0, 0xFE0F] @ fmt e (JInt (error_context_count st))] else [])
            @ (if file_operations_active st then [[0x1F4C1]] else [])
            @ (if recovery_attempts st > 0
               then [[0x1F504] @ fmt e (JInt (recovery_attempts st))] else [])
            @ (if connection_status st = U ''error'' then [[0x1F50C, 0x274C]]
               else if connection_status st = U ''ok'' then [[0x1F50C, 0x2705]] else [])
            @ (if last_response_time st > 0 \<and> last_response_time st > 10
               then [[0x23F1, 0xFE0F] @ fmt1 e (last_response_time st) @ U ''s''] else []);
          t1 = (if status_indicators \<noteq> [] then t0 @ U '' | '' @ join [SP] status_indicators
                else t0);
          t2 = (if view_mode st = U ''claude_raw'' then t1 @ U '' | RAW VIEW'' else t1);
          t3 = (if current_tool_activity st \<noteq> [] then
                  (let dots = replicate (tool_progress_dots st mod 4) 46;
                       elapsed =
                         (case tool_start_time st of
                            None \<Rightarrow> []
                          | Some t \<Rightarrow>
                              if t \<noteq> 0 \<and> now e - t > 2
                              then U '' ('' @ fmt1 e (now e - t) @ U ''s)'' else [])
                   in t2 @ U '' | '' @ [0x1F527, SP] @ current_tool_activity st @ dots @ elapsed)
                else if thinking st then t2 @ U '' | '' @ [0x1F4AD] @ U '' thinking...''
                else t2);
          t4 = (if copy_mode st then t3 @ U '' | '' @ [0x1F4CB] @ U '' COPY MODE (Ctrl+R to resume)''
                else t3)
      in t4)"

definition update_status :: "env \<Rightarrow> state \<Rightarrow> state" where
  "update_status e st = st\<lparr>status := status_text e st\<rparr>"


section \<open>The event classifier (\<open>process_system_messages\<close>)\<close>

text \<open>
  The outcome of handling one event: the state it leaves, and whether an exception other
  than \<open>JSONDecodeError\<close> escaped (the caller's outer \<open>except Exception\<close> then ends
  the whole call, with the state as it was when the exception was raised).
\<close>

datatype outcome = Done state | Raised exc state

definition cond :: "exc + bool \<Rightarrow> state \<Rightarrow> outcome \<Rightarrow> outcome \<Rightarrow> outcome" where
  "cond c st a b = (case c of Inl x \<Rightarrow> Raised x st | Inr t \<Rightarrow> if t then a else b)"

definition with_get :: "json \<Rightarrow> pystr \<Rightarrow> json \<Rightarrow> state \<Rightarrow> (json \<Rightarrow> outcome) \<Rightarrow> outcome" where
  "with_get obj k dflt st f = (case py_get obj k dflt of Inl x \<Rightarrow> Raised x st | Inr v \<Rightarrow> f v)"

text \<open>
  \<open>if not self.copy_mode: self.draw_screen()\<close>. The redraw comes after the state has
  changed; when it raises, the exception leaves the handler with the changed state.
\<close>

definition redraw :: "env \<Rightarrow> state \<Rightarrow> outcome" where
  "redraw e st =
     (if copy_mode st then Done st
      else case draw e st of None \<Rightarrow> Done st | Some x \<Rightarrow> Raised x st)"

definition set_activity :: "env \<Rightarrow> pystr \<Rightarrow> pystr \<Rightarrow> state \<Rightarrow> state" where
  "set_activity e st_text label st =
     st\<lparr>status := st_text, current_tool_activity := label, tool_start_time := Some (now e)\<rparr>"

definition clear_activity :: "state \<Rightarrow> state" where
  "clear_activity st = st\<lparr>current_tool_activity := [], tool_start_time := None\<rparr>"

text \<open>Lines 879--943: the \<open>elif\<close> chain of the remaining engine events, in order.\<close>

definition engine_other :: "env \<Rightarrow> state \<Rightarrow> json \<Rightarrow> json \<Rightarrow> outcome" where
  "engine_other e st message metadata =
     cond (py_in (U ''loading_personality'') message) st
       (with_get metadata (U ''message'') (JStr (U ''personality'')) st
          (\<lambda>pn. Done (st\<lparr>status := U ''Loading '' @ py_str e pn @ U ''...''\<rparr>)))
    (cond (py_in (U ''file_operations_calling_gemma'') message) st
       (Done (st\<lparr>status := U ''Planning file operations...''\<rparr>))
    (cond (py_in (U ''file_operation_executing'') message) st
       (with_get metadata (U ''operation'') (JStr (U ''operation'')) st
          (\<lambda>op. Done (st\<lparr>status := U ''Executing: '' @ py_str e op\<rparr>)))
    (cond (bnd (py_in (U ''personalizing'') message)
             (\<lambda>b. if b then Inr True else py_in (U ''personality_interpretation'') message)) st
       (Done (st\<lparr>status := U ''Personalizing response...''\<rparr>))
    (cond (py_in (U ''intent_classification'') message) st
       (Done (set_activity e ([0x1F9E0] @ U '' Analyzing intent...'')
                (U ''analyzing user intent'') st))
    (cond (py_in (U ''intelligence_router'') message) st
       (Done (set_activity e ([0x1F916] @ U '' Selecting optimal model...'')
                (U ''routing to best AI model'') st))
    (cond (py_in (U ''tools_agent_start'') message) st
       (Done (set_activity e ([0x1F527] @ U '' Planning tool execution...'')
                (U ''planning tool steps'') st))
    (cond (py_in (U ''tools_agent_executing_step'') message) st
       (with_get metadata (U ''step'') (JDict []) st
          (\<lambda>step_data. with_get step_data (U ''tool'') (JStr (U ''unknown'')) st
          (\<lambda>tool_name. with_get step_data (U ''description'') (JStr []) st
          (\<lambda>description.
             Done (set_activity e
                     (if truthy description
                      then [0x1F527, SP] @ py_str e description @ U ''...''
                      else [0x1F527] @ U '' Executing '' @ py_str e tool_name @ U ''...'')
                     (U ''executing '' @ py_str e tool_name) st)))))
    (cond (py_in (U ''recursive_validation'') message) st
       (Done (set_activity e ([0x1F50D] @ U '' Validating results recursively...'')
                (U ''recursive validation'') st))
    (cond (py_in (U ''subconscious_reasoning'') message) st
       (Done (set_activity e ([0x1F9E0] @ U '' Deep reasoning with DeepSeek...'')
                (U ''deep subconscious analysis'') st))
    (cond (py_in (U ''deepseek_attempt'') message) st
       (with_get metadata (U ''attempt'') (JInt 1) st
          (\<lambda>attempt. Done (st\<lparr>status := [0x1F9E0] @ U '' DeepSeek thinking (attempt ''
                                   @ py_str e attempt @ U '')...'',
                               current_tool_activity := U ''DeepSeek reasoning (try ''
                                   @ py_str e attempt @ U '')''\<rparr>)))
    (cond (py_in (U ''personality_interpretation'') message) st
       (Done (set_activity e ([0x1F3AD] @ U '' Ani interpreting response...'')
                (U ''personality interpretation'') st))
    (cond (py_in (U ''thinking'') message) st
       (with_get metadata (U ''message'') (JStr (U ''Thinking...'')) st
          (\<lambda>thinking_msg. Done (set_activity e ([0x1F4AD, SP] @ py_str e thinking_msg)
                                   (U ''thinking'') st)))
    (cond (bnd (py_in (U ''_complete'') message)
             (\<lambda>b. if b then Inr True else py_in (U ''_success'') message)) st
       (Done ((clear_activity st)\<lparr>status := [0x2705] @ U '' Task completed''\<rparr>))
    (cond (bnd (py_in (U ''_failed'') message)
             (\<lambda>b. if b then Inr True else lower_contains_error message)) st
       (with_get metadata (U ''error'') (JStr (U ''Unknown error'')) (clear_activity st)
          (\<lambda>error_msg.
             case error_msg of
               JStr s \<Rightarrow> Done ((clear_activity st)\<lparr>status :=
                            [0x274C] @ U '' Error: '' @ take 50 s @ U ''...''\<rparr>)
             | JList l \<Rightarrow> Done ((clear_activity st)\<lparr>status :=
                            [0x274C] @ U '' Error: '' @ fmt e (JList (take 50 l)) @ U ''...''\<rparr>)
             | _ \<Rightarrow> Raised TypeError (clear_activity st)))
       (Done st)))))))))))))))"

text \<open>Lines 853--943: an event of type \<open>engine\<close> that passed the filter.\<close>

definition engine_event :: "env \<Rightarrow> state \<Rightarrow> json \<Rightarrow> json \<Rightarrow> outcome" where
  "engine_event e st message metadata =
     cond (py_in (U ''system_state_changed'') message) st
       (with_get metadata (U ''status'') (JStr []) st
          (\<lambda>status_v. with_get metadata (U ''message'') (JStr []) st
          (\<lambda>status_message.
             if status_v = JStr (U ''ready'') \<and> truthy status_message
             then Done ((append_message (mk_message e (U ''system'') status_message) st)
                          \<lparr>status := U ''Status: Ready''\<rparr>)
             else Done st)))
    (cond (py_in (U ''file_operations_user_acknowledgment'') message) st
       (with_get metadata (U ''acknowledgment'') (JStr []) st
          (\<lambda>acknowledgment.
             case acknowledgment of
               JStr a \<Rightarrow> if strip a \<noteq> []
                          then Done (append_message (mk_message e (U ''assistant'') (JStr a)) st)
                          else Done st
             | _ \<Rightarrow> Raised AttributeError st))
       (engine_other e st message metadata))"

text \<open>Lines 791--943: one parsed line that is a JSON object.\<close>

definition process_msg :: "env \<Rightarrow> state \<Rightarrow> (pystr \<times> json) list \<Rightarrow> outcome" where
  "process_msg e st msg =
     (let msg_type = dict_get msg (U ''type'') (JStr []);
          message = dict_get msg (U ''message'') (JStr []);
          metadata = dict_get msg (U ''metadata'') (JDict [])
      in cond (should_ignore_message message msg_type) st (Done st)
        (if msg_type = JStr (U ''assistant_message'') then
           with_get metadata (U ''source'') (JStr []) st
             (\<lambda>src.
                case dict_get msg (U ''content'') (JStr []) of
                  JStr c \<Rightarrow>
                    if strip c \<noteq> [] then
                      redraw e (append_message
                        \<lparr>role = U ''assistant'',
                         content = JStr (if src = JStr (U ''personality_acknowledgment'')
                                         then [0x1F3AD, SP] @ c else c),
                         timestamp = now e, immediate = True, source = Some src,
                         tool = None\<rparr> st)
                    else Done st
                | _ \<Rightarrow> Raised AttributeError st)
         else if msg_type = JStr (U ''tool_activity'') then
           (case dict_get msg (U ''activity'') (JStr []) of
              JStr activity \<Rightarrow>
                redraw e (update_status e
                  (if strip activity \<noteq> []
                   then st\<lparr>current_tool_activity := activity,
                           tool_start_time := Some (now e), tool_progress_dots := 0\<rparr>
                   else clear_activity st))
            | _ \<Rightarrow> Raised AttributeError st)
         else if msg_type = JStr (U ''tool_blurb'') then
           (case dict_get msg (U ''content'') (JStr []) of
              JStr c \<Rightarrow>
                if strip c \<noteq> [] then
                  redraw e (append_message
                    \<lparr>role = U ''system'', content = JStr ([0x1F527, SP] @ c),
                     timestamp = now e, immediate = False, source = None,
                     tool = Some (dict_get msg (U ''tool_name'') (JStr []))\<rparr> st)
                else Done st
            | _ \<Rightarrow> Raised AttributeError st)
         else if msg_type = JStr (U ''engine'') then engine_event e st message metadata
         else Done st))"

text \<open>
  Lines 784--947: one line of the chunk. A blank line and a line on which the parse
  raises \<open>JSONDecodeError\<close> are skipped; so is a JSON value that is not an object.
  Any other exception of the parse is not caught by the inner handler.
\<close>

definition process_line :: "env \<Rightarrow> state \<Rightarrow> pystr \<Rightarrow> outcome" where
  "process_line e st line =
     (if strip line = [] then Done st
      else case loads e line of
             DecodeError \<Rightarrow> Done st
           | LoadError x \<Rightarrow> Raised x st
           | Parsed (JDict msg) \<Rightarrow> process_msg e st msg
           | Parsed _ \<Rightarrow> Done st)"

text \<open>
  The loop over the lines: the first exception that escapes a line ends it, and the
  lines after it are not handled.
\<close>

fun process_lines :: "env \<Rightarrow> state \<Rightarrow> pystr list \<Rightarrow> outcome" where
  "process_lines e st [] = Done st"
| "process_lines e st (l # ls) =
     (case process_line e st l of
        Done st' \<Rightarrow> process_lines e st' ls
      | Raised x st' \<Rightarrow> Raised x st')"

text \<open>\<open>str.split\<close> at the newline character.\<close>

fun split_nl :: "pystr \<Rightarrow> pystr list" where
  "split_nl [] = [[]]"
| "split_nl (c # cs) =
     (if c = NL then [] # split_nl cs
      else case split_nl cs of l # ls \<Rightarrow> (c # l) # ls | [] \<Rightarrow> [[c]])"

definition outcome_state :: "outcome \<Rightarrow> state" where
  "outcome_state r = (case r of Done st \<Rightarrow> st | Raised x st \<Rightarrow> st)"

text \<open>
  Lines 777--954: the outer handler logs an escaped exception and the call returns; the
  session keeps the state reached.
\<close>

definition process_system_messages :: "env \<Rightarrow> state \<Rightarrow> pystr \<Rightarrow> state" where
  "process_system_messages e st stderr_output =
     outcome_state (process_lines e st (split_nl (strip stderr_output)))"

lemma outcome_state_redraw [simp]: "outcome_state (redraw e st) = st"
  by (simp add: redraw_def outcome_state_def split: option.splits)

lemma redraw_returns: "copy_mode st \<or> draw e st = None \<Longrightarrow> redraw e st = Done st"
  by (auto simp: redraw_def)

text \<open>The state \<open>__init__\<close> builds (lines 21--48).\<close>

definition init_state :: state where
  "init_state =
     \<lparr>messages = [], status = U ''Ready'', provider = U ''claude'', personality = U ''ani'',
      thinking = False, copy_mode = False, conversation_context = True,
      tools_enabled = False, view_mode = U ''personality'',
      error_contexts_loaded = False, error_context_count = 0,
      file_operations_active = False, recovery_attempts = 0,
      connection_status = U ''unknown'', current_tool_activity = [],
      tool_progress_dots = 0, tool_start_time = None, last_response_time = 0,
      total_messages_processed = 0\<rparr>"

lemma contains_Nil [simp]: "contains [] s"
  by (cases s) auto

lemma contains_refl [simp]: "contains s s"
  by (cases s) auto

lemma any_in_str: "any_in ks (JStr m) = Inr (\<exists>k\<in>set ks. contains k m)"
  by (induction ks) (auto simp: bnd_def)

lemma strip_empty_iff: "strip s = [] \<longleftrightarrow> (\<forall>c\<in>set s. py_isspace c)"
proof
  assume e: "strip s = []"
  then have "dropWhile py_isspace (rev (lstrip s)) = []"
    by (simp add: strip_def rstrip_def)
  then have a: "\<forall>c\<in>set (lstrip s). py_isspace c"
    by (simp add: dropWhile_eq_Nil_conv)
  have "s = takeWhile py_isspace s @ lstrip s"
    by (simp add: lstrip_def)
  then have "set s = set (takeWhile py_isspace s) \<union> set (lstrip s)"
    by (metis set_append)
  then show "\<forall>c\<in>set s. py_isspace c"
    using a by (auto dest: set_takeWhileD)
next
  assume "\<forall>c\<in>set s. py_isspace c"
  then have "lstrip s = []" by (simp add: lstrip_def)
  then show "strip s = []" by (simp add: strip_def rstrip_def)
qed

lemma should_ignore_other:
  "t \<noteq> JStr (U ''error'') \<Longrightarrow> t \<noteq> JStr (U ''engine'') \<Longrightarrow> should_ignore_message m t = Inr False"
  by (simp add: should_ignore_message_def)

lemma U_neq: "U ''assistant_message'' \<noteq> U ''error''" "U ''assistant_message'' \<noteq> U ''engine''"
  "U ''tool_activity'' \<noteq> U ''error''" "U ''tool_activity'' \<noteq> U ''engine''"
  "U ''tool_activity'' \<noteq> U ''assistant_message''"
  "U ''error'' \<noteq> U ''engine''" "U ''error'' \<noteq> U ''assistant_message''"
  "U ''error'' \<noteq> U ''tool_activity''" "U ''error'' \<noteq> U ''tool_blurb''"
  by (simp_all add: U_def)

text \<open>
  C10. An \<open>assistant_message\<close> event whose content is empty or consists only of
  whitespace leaves the session state as it was (no message is appended), so a message
  is appended only for non-blank content; and for non-blank content (with a metadata
  object) exactly the immediate assistant message is appended, and the screen is
  redrawn after it.
\<close>

theorem blank_assistant_message_ignored:
  assumes "dict_get msg (U ''type'') (JStr []) = JStr (U ''assistant_message'')"
    and "dict_get msg (U ''content'') (JStr []) = JStr c"
  shows "((\<forall>x\<in>set c. py_isspace x) \<longrightarrow> outcome_state (process_msg e st msg) = st)
    \<and> (messages (outcome_state (process_msg e st msg)) \<noteq> messages st
         \<longrightarrow> \<not> (\<forall>x\<in>set c. py_isspace x))
    \<and> (\<not> (\<forall>x\<in>set c. py_isspace x) \<and> dict_get msg (U ''metadata'') (JDict []) = JDict md
         \<longrightarrow> process_msg e st msg = redraw e (append_message
                \<lparr>role = U ''assistant'',
                 content = JStr (if dict_get md (U ''source'') (JStr [])
                                      = JStr (U ''personality_acknowledgment'')
                                 then [0x1F3AD, SP] @ c else c),
                 timestamp = now e, immediate = True,
                 source = Some (dict_get md (U ''source'') (JStr [])), tool = None\<rparr> st)
           \<and> outcome_state (process_msg e st msg) = append_message
                \<lparr>role = U ''assistant'',
                 content = JStr (if dict_get md (U ''source'') (JStr [])
                                      = JStr (U ''personality_acknowledgment'')
                                 then [0x1F3AD, SP] @ c else c),
                 timestamp = now e, immediate = True,
                 source = Some (dict_get md (U ''source'') (JStr [])), tool = None\<rparr> st)"
proof -
  have blank: "outcome_state (process_msg e st msg) = st" if "\<forall>x\<in>set c. py_isspace x"
  proof -
    from that have "strip c = []" by (simp add: strip_empty_iff)
    then show ?thesis
      using assms
      by (simp add: process_msg_def Let_def should_ignore_other U_neq cond_def with_get_def
          outcome_state_def split: sum.splits)
  qed
  have nonblank: "process_msg e st msg = redraw e (append_message
                \<lparr>role = U ''assistant'',
                 content = JStr (if dict_get md (U ''source'') (JStr [])
                                      = JStr (U ''personality_acknowledgment'')
                                 then [0x1F3AD, SP] @ c else c),
                 timestamp = now e, immediate = True,
                 source = Some (dict_get md (U ''source'') (JStr [])), tool = None\<rparr> st)"
    if "\<not> (\<forall>x\<in>set c. py_isspace x)" "dict_get msg (U ''metadata'') (JDict []) = JDict md"
  proof -
    from that(1) have "strip c \<noteq> []" by (simp add: strip_empty_iff)
    then show ?thesis
      using assms that(2)
      by (simp add: process_msg_def Let_def should_ignore_other U_neq cond_def with_get_def)
  qed
  from nonblank have "outcome_state (process_msg e st msg) = append_message
                \<lparr>role = U ''assistant'',
                 content = JStr (if dict_get md (U ''source'') (JStr [])
                                      = JStr (U ''personality_acknowledgment'')
                                 then [0x1F3AD, SP] @ c else c),
                 timestamp = now e, immediate = True,
                 source = Some (dict_get md (U ''source'') (JStr [])), tool = None\<rparr> st"
    if "\<not> (\<forall>x\<in>set c. py_isspace x)" "dict_get msg (U ''metadata'') (JDict []) = JDict md"
    using that by simp
  with blank nonblank show ?thesis by metis
qed

text \<open>
  An environment for the examples: none of them formats a value that is not a string,
  a float or an exception; the clock reads 100 and every redraw returns.
\<close>

definition ex_env :: env where
  "ex_env = \<lparr>loads = (\<lambda>s. DecodeError), fmt = (\<lambda>v. []), fmt1 = (\<lambda>r. []),
              exc_str = (\<lambda>x v. []), now = 100, draw = (\<lambda>s. None)\<rparr>"

lemmas str_simps = U_def strip_def lstrip_def rstrip_def py_isspace_def SP_def NL_def

lemmas msg_simps = process_msg_def Let_def dict_get_def should_ignore_message_def cond_def
  with_get_def bnd_def outcome_state_def append_message_def redraw_def

theorem blank_assistant_message_ignored_witness:
  "dict_get [(U ''type'', JStr (U ''assistant_message'')), (U ''content'', JStr (U ''  ''))]
      (U ''type'') (JStr []) = JStr (U ''assistant_message'')
   \<and> list_all py_isspace (U ''  '')
   \<and> outcome_state (process_msg ex_env init_state
        [(U ''type'', JStr (U ''assistant_message'')), (U ''content'', JStr (U ''  ''))])
      = init_state
   \<and> \<not> list_all py_isspace (U ''hi'')
   \<and> messages (outcome_state (process_msg ex_env init_state
        [(U ''type'', JStr (U ''assistant_message'')), (U ''content'', JStr (U ''hi''))]))
      \<noteq> messages init_state"
  using blank_assistant_message_ignored
    [of "[(U ''type'', JStr (U ''assistant_message'')), (U ''content'', JStr (U ''  ''))]"
        "U ''  ''" ex_env init_state "[]"]
    blank_assistant_message_ignored
    [of "[(U ''type'', JStr (U ''assistant_message'')), (U ''content'', JStr (U ''hi''))]"
        "U ''hi''" ex_env init_state "[]"]
  by (simp add: msg_simps str_simps init_state_def ex_env_def)


lemma status_text_indep:
  "status_text e (s\<lparr>status := x\<rparr>) = status_text e s"
  by (simp add: status_text_def Let_def split del: if_split cong del: if_weak_cong)

lemma update_status_fields [simp]:
  "messages (update_status e s) = messages s"
  "current_tool_activity (update_status e s) = current_tool_activity s"
  "tool_start_time (update_status e s) = tool_start_time s"
  "tool_progress_dots (update_status e s) = tool_progress_dots s"
  by (simp_all add: update_status_def)

lemma update_status_absorb:
  "update_status e (clear_activity (update_status e s)) = update_status e (clear_activity s)"
  "update_status e (update_status e s) = update_status e s"
proof -
  have "clear_activity (s\<lparr>status := x\<rparr>) = (clear_activity s)\<lparr>status := x\<rparr>" for x
    by (simp add: clear_activity_def)
  then show "update_status e (clear_activity (update_status e s)) = update_status e (clear_activity s)"
    by (simp add: update_status_def status_text_indep)
  show "update_status e (update_status e s) = update_status e s"
    by (simp add: update_status_def status_text_indep)
qed

text \<open>
  C9 (as the code has it). A \<open>tool_activity\<close> event whose activity is a string: when
  the activity is not blank (\<open>activity.strip()\<close> is non-empty) the activity indicator
  becomes that label and its start time the clock reading; when it is blank (empty or
  whitespace only) both the label and the start time are cleared. In both cases the
  status line is the one \<open>update_status\<close> computes from the new state, no message
  is appended, and the screen is redrawn after the change.
\<close>

theorem tool_activity_event:
  assumes "dict_get msg (U ''type'') (JStr []) = JStr (U ''tool_activity'')"
    and "dict_get msg (U ''activity'') (JStr []) = JStr a"
  shows "(\<not> (\<forall>x\<in>set a. py_isspace x) \<longrightarrow>
            process_msg e st msg = redraw e (update_status e
              (st\<lparr>current_tool_activity := a, tool_start_time := Some (now e),
                  tool_progress_dots := 0\<rparr>))
            \<and> outcome_state (process_msg e st msg) = update_status e
              (st\<lparr>current_tool_activity := a, tool_start_time := Some (now e),
                  tool_progress_dots := 0\<rparr>)
            \<and> current_tool_activity (outcome_state (process_msg e st msg)) = a
            \<and> tool_start_time (outcome_state (process_msg e st msg)) = Some (now e))
     \<and> ((\<forall>x\<in>set a. py_isspace x) \<longrightarrow>
            process_msg e st msg = redraw e (update_status e (clear_activity st))
            \<and> outcome_state (process_msg e st msg) = update_status e (clear_activity st)
            \<and> current_tool_activity (outcome_state (process_msg e st msg)) = []
            \<and> tool_start_time (outcome_state (process_msg e st msg)) = None)
     \<and> update_status e (outcome_state (process_msg e st msg)) = outcome_state (process_msg e st msg)
     \<and> messages (outcome_state (process_msg e st msg)) = messages st"
proof (cases "\<forall>x\<in>set a. py_isspace x")
  case True
  then have "strip a = []" by (simp add: strip_empty_iff)
  then have "process_msg e st msg = redraw e (update_status e (clear_activity st))"
    using assms
    by (simp add: process_msg_def Let_def should_ignore_other U_neq cond_def)
  then show ?thesis
    using True by (simp add: update_status_absorb clear_activity_def)
next
  case False
  then have "strip a \<noteq> []" by (simp add: strip_empty_iff)
  then have "process_msg e st msg = redraw e (update_status e
              (st\<lparr>current_tool_activity := a, tool_start_time := Some (now e),
                  tool_progress_dots := 0\<rparr>))"
    using assms
    by (simp add: process_msg_def Let_def should_ignore_other U_neq cond_def)
  then show ?thesis
    using False by (simp add: update_status_absorb)
qed


definition ex_set_activity :: "(pystr \<times> json) list" where
  "ex_set_activity = [(U ''type'', JStr (U ''tool_activity'')), (U ''activity'', JStr (U ''reading file''))]"

definition ex_clear_activity :: "(pystr \<times> json) list" where
  "ex_clear_activity = [(U ''type'', JStr (U ''tool_activity'')), (U ''activity'', JStr [])]"

definition ex_blank_activity :: "(pystr \<times> json) list" where
  "ex_blank_activity = [(U ''type'', JStr (U ''tool_activity'')), (U ''activity'', JStr (U ''   ''))]"

lemmas ex_simps = msg_simps str_simps init_state_def ex_env_def update_status_def
  status_text_def clear_activity_def

theorem tool_activity_event_witness:
  "current_tool_activity (outcome_state (process_msg ex_env init_state ex_set_activity))
     = U ''reading file''
   \<and> tool_start_time (outcome_state (process_msg ex_env init_state ex_set_activity)) = Some 100
   \<and> current_tool_activity (outcome_state (process_msg ex_env
        (outcome_state (process_msg ex_env init_state ex_set_activity)) ex_clear_activity)) = []
   \<and> tool_start_time (outcome_state (process_msg ex_env
        (outcome_state (process_msg ex_env init_state ex_set_activity)) ex_clear_activity)) = None
   \<and> status (outcome_state (process_msg ex_env
        (outcome_state (process_msg ex_env init_state ex_set_activity)) ex_clear_activity))
      = U ''claude | '' @ [0x1F3AD] @ U ''ani | '' @ [0x1F9E0]"
  using tool_activity_event [of ex_set_activity "U ''reading file''" ex_env init_state]
    tool_activity_event [of ex_clear_activity "[]" ex_env
      "outcome_state (process_msg ex_env init_state ex_set_activity)"]
  by (simp add: ex_simps ex_set_activity_def ex_clear_activity_def)

text \<open>
  C9 as stated fails: an activity of three spaces is a non-empty field, yet the event
  clears the indicator instead of setting it to that label.
\<close>

theorem blank_activity_counterexample:
  "U ''   '' \<noteq> []
   \<and> current_tool_activity (outcome_state (process_msg ex_env init_state ex_blank_activity))
       \<noteq> U ''   ''"
  by (simp add: ex_simps ex_blank_activity_def)

text \<open>
  C5 (as the code has it). For an \<open>error\<close> event with a string message the filter
  answers "ignore" exactly when the message contains one of the two markers, and lets
  every other error event through; no handler matches the kind \<open>error\<close>, so an error
  event never changes the state either way. Every kind other than \<open>engine\<close> and
  \<open>error\<close> passes the filter.
\<close>

theorem error_filter:
  "should_ignore_message (JStr m) (JStr (U ''error''))
     = Inr (contains (U ''all_json_blocks_failed'') m \<or> contains (U ''deepseek_json_debug'') m)
   \<and> (dict_get msg (U ''type'') (JStr []) = JStr (U ''error'')
        \<longrightarrow> outcome_state (process_msg e st msg) = st)
   \<and> (t \<noteq> JStr (U ''error'') \<and> t \<noteq> JStr (U ''engine'')
        \<longrightarrow> should_ignore_message x t = Inr False)"
proof -
  have a: "should_ignore_message (JStr m) (JStr (U ''error''))
     = Inr (contains (U ''all_json_blocks_failed'') m \<or> contains (U ''deepseek_json_debug'') m)"
    by (simp add: should_ignore_message_def bnd_def)
  have b: "outcome_state (process_msg e st msg) = st"
    if "dict_get msg (U ''type'') (JStr []) = JStr (U ''error'')"
    using that
    by (simp add: process_msg_def Let_def cond_def outcome_state_def U_neq split: sum.splits)
  from a b should_ignore_other show ?thesis by blast
qed

definition ex_error_marked :: "(pystr \<times> json) list" where
  "ex_error_marked = [(U ''type'', JStr (U ''error'')), (U ''message'', JStr (U ''all_json_blocks_failed''))]"

theorem error_filter_witness:
  "should_ignore_message (JStr (U ''boom'')) (JStr (U ''error'')) = Inr False
   \<and> outcome_state (process_msg ex_env init_state ex_error_marked) = init_state
   \<and> should_ignore_message (JStr (U ''boom'')) (JStr (U ''tool_blurb'')) = Inr False"
  using error_filter [of "U ''boom''" ex_error_marked ex_env init_state
      "JStr (U ''tool_blurb'')" "JStr (U ''boom'')"]
  by (simp add: ex_simps ex_error_marked_def)

text \<open>
  C5 as stated fails: the error event whose message is the marker
  \<open>all_json_blocks_failed\<close> is the one the filter drops, and an error event without a
  marker is the one it lets through.
\<close>

theorem error_filter_counterexample:
  "contains (U ''all_json_blocks_failed'') (U ''all_json_blocks_failed'')
   \<and> should_ignore_message (JStr (U ''all_json_blocks_failed'')) (JStr (U ''error'')) = Inr True
   \<and> should_ignore_message (JStr (U ''boom'')) (JStr (U ''error'')) = Inr False"
  by (simp add: should_ignore_message_def bnd_def U_def)

lemma U_neq_engine: "U ''engine'' \<noteq> U ''assistant_message''"
  "U ''engine'' \<noteq> U ''tool_activity''" "U ''engine'' \<noteq> U ''tool_blurb''"
  by (simp_all add: U_def)

lemma should_ignore_engine:
  "should_ignore_message (JStr s) (JStr (U ''engine''))
      = Inr ((\<exists>n\<in>set debug_noise_keywords. contains n s)
             \<or> \<not> (\<exists>k\<in>set important_keywords. contains k s))"
  by (simp add: should_ignore_message_def any_in_str bnd_def U_neq [symmetric])

text \<open>
  C2 (as the code has it). An \<open>engine\<close> event whose message is exactly a noise keyword
  changes nothing. The noise keywords are tested first: an event whose message contains
  one is ignored and leaves the state as it was, whatever else the message contains. A
  message that contains an important keyword and no noise keyword passes the filter and
  is handed to the engine handlers.
\<close>

theorem engine_noise_filter:
  "(m \<in> set debug_noise_keywords
      \<and> dict_get msg (U ''type'') (JStr []) = JStr (U ''engine'')
      \<and> dict_get msg (U ''message'') (JStr []) = JStr m
      \<longrightarrow> process_msg e st msg = Done st)
   \<and> ((\<exists>n\<in>set debug_noise_keywords. contains n m')
      \<longrightarrow> should_ignore_message (JStr m') (JStr (U ''engine'')) = Inr True
        \<and> (dict_get msg' (U ''type'') (JStr []) = JStr (U ''engine'')
             \<and> dict_get msg' (U ''message'') (JStr []) = JStr m'
             \<longrightarrow> process_msg e st msg' = Done st))
   \<and> ((\<exists>k\<in>set important_keywords. contains k m')
      \<and> \<not> (\<exists>n\<in>set debug_noise_keywords. contains n m')
      \<longrightarrow> should_ignore_message (JStr m') (JStr (U ''engine'')) = Inr False
        \<and> (dict_get msg' (U ''type'') (JStr []) = JStr (U ''engine'')
             \<and> dict_get msg' (U ''message'') (JStr []) = JStr m'
             \<longrightarrow> process_msg e st msg'
                = engine_event e st (JStr m') (dict_get msg' (U ''metadata'') (JDict []))))"
proof -
  note f = should_ignore_engine
  have a: "process_msg e st msg = Done st"
    if "m \<in> set debug_noise_keywords" "dict_get msg (U ''type'') (JStr []) = JStr (U ''engine'')"
      "dict_get msg (U ''message'') (JStr []) = JStr m"
  proof -
    have "\<exists>n\<in>set debug_noise_keywords. contains n m" using that(1) by (rule bexI [rotated]) simp
    then show ?thesis using that(2,3) by (simp add: process_msg_def Let_def f cond_def)
  qed
  have c: "process_msg e st msg'
                = engine_event e st (JStr m') (dict_get msg' (U ''metadata'') (JDict []))"
    if "\<exists>k\<in>set important_keywords. contains k m'"
      "\<not> (\<exists>n\<in>set debug_noise_keywords. contains n m')"
      "dict_get msg' (U ''type'') (JStr []) = JStr (U ''engine'')"
      "dict_get msg' (U ''message'') (JStr []) = JStr m'"
    using that by (simp add: process_msg_def Let_def f cond_def U_neq_engine)
  have b: "process_msg e st msg' = Done st"
    if "\<exists>n\<in>set debug_noise_keywords. contains n m'"
      "dict_get msg' (U ''type'') (JStr []) = JStr (U ''engine'')"
      "dict_get msg' (U ''message'') (JStr []) = JStr m'"
    using that by (simp add: process_msg_def Let_def f cond_def)
  from a b c f show ?thesis by simp
qed


definition ex_noise :: "(pystr \<times> json) list" where
  "ex_noise = [(U ''type'', JStr (U ''engine'')), (U ''message'', JStr (U ''ollama_api_call_start''))]"

definition ex_important :: "(pystr \<times> json) list" where
  "ex_important = [(U ''type'', JStr (U ''engine'')), (U ''message'', JStr (U ''tools_agent_start''))]"

definition ex_mixed :: "(pystr \<times> json) list" where
  "ex_mixed = [(U ''type'', JStr (U ''engine'')),
               (U ''message'', JStr (U ''tools_agent_start ollama_api_call_start''))]"

lemma ex_noise_member: "U ''ollama_api_call_start'' \<in> set debug_noise_keywords"
  by (simp add: debug_noise_keywords_def)

lemma ex_important_member: "U ''tools_agent_start'' \<in> set important_keywords"
  by (simp add: important_keywords_def)

lemma ex_mixed_contains:
  "contains (U ''ollama_api_call_start'') (U ''tools_agent_start ollama_api_call_start'')"
  "contains (U ''tools_agent_start'') (U ''tools_agent_start ollama_api_call_start'')"
  by (simp_all add: U_def)

lemma ex_important_noise_free:
  "\<not> (\<exists>n\<in>set debug_noise_keywords. contains n (U ''tools_agent_start''))"
  by (simp add: debug_noise_keywords_def U_def)

lemmas engine_simps = engine_event_def engine_other_def set_activity_def py_str_def

lemma ex_important_handled:
  "engine_event ex_env init_state (JStr (U ''tools_agent_start'')) (JDict [])
     = Done (set_activity ex_env ([0x1F527] @ U '' Planning tool execution...'')
               (U ''planning tool steps'') init_state)"
  by (simp add: engine_event_def engine_other_def cond_def bnd_def U_def)

theorem engine_noise_filter_witness:
  "U ''ollama_api_call_start'' \<in> set debug_noise_keywords
   \<and> process_msg ex_env init_state ex_noise = Done init_state
   \<and> should_ignore_message (JStr (U ''tools_agent_start ollama_api_call_start''))
        (JStr (U ''engine'')) = Inr True
   \<and> process_msg ex_env init_state ex_mixed = Done init_state
   \<and> should_ignore_message (JStr (U ''tools_agent_start'')) (JStr (U ''engine'')) = Inr False
   \<and> process_msg ex_env init_state ex_important
        = Done (set_activity ex_env ([0x1F527] @ U '' Planning tool execution...'')
               (U ''planning tool steps'') init_state)"
proof -
  have t: "dict_get ex_noise (U ''type'') (JStr []) = JStr (U ''engine'')"
    "dict_get ex_noise (U ''message'') (JStr []) = JStr (U ''ollama_api_call_start'')"
    "dict_get ex_important (U ''type'') (JStr []) = JStr (U ''engine'')"
    "dict_get ex_important (U ''message'') (JStr []) = JStr (U ''tools_agent_start'')"
    "dict_get ex_important (U ''metadata'') (JDict []) = JDict []"
    "dict_get ex_mixed (U ''type'') (JStr []) = JStr (U ''engine'')"
    "dict_get ex_mixed (U ''message'') (JStr [])
       = JStr (U ''tools_agent_start ollama_api_call_start'')"
    by (simp_all add: dict_get_def ex_noise_def ex_important_def ex_mixed_def U_def)
  have n: "\<exists>n\<in>set debug_noise_keywords. contains n (U ''tools_agent_start ollama_api_call_start'')"
    using ex_noise_member ex_mixed_contains(1) by blast
  have k: "\<exists>k\<in>set important_keywords. contains k (U ''tools_agent_start'')"
    using ex_important_member by (rule bexI [rotated]) simp
  show ?thesis
    using engine_noise_filter [of "U ''ollama_api_call_start''" ex_noise ex_env init_state
        "U ''tools_agent_start ollama_api_call_start''" ex_mixed]
      engine_noise_filter [of "U ''ollama_api_call_start''" ex_noise ex_env init_state
        "U ''tools_agent_start''" ex_important]
      t n k ex_noise_member ex_important_noise_free ex_important_handled
    by simp
qed

text \<open>
  C2 as stated fails: a message with the important keyword \<open>tools_agent_start\<close> and
  the noise keyword \<open>ollama_api_call_start\<close> is ignored; the state stays as it was.
\<close>

theorem engine_noise_filter_counterexample:
  "U ''tools_agent_start'' \<in> set important_keywords
   \<and> contains (U ''tools_agent_start'') (U ''tools_agent_start ollama_api_call_start'')
   \<and> process_msg ex_env init_state ex_mixed = Done init_state"
proof -
  have t: "dict_get ex_mixed (U ''type'') (JStr []) = JStr (U ''engine'')"
    "dict_get ex_mixed (U ''message'') (JStr [])
       = JStr (U ''tools_agent_start ollama_api_call_start'')"
    by (simp_all add: dict_get_def ex_mixed_def U_def)
  have n: "\<exists>n\<in>set debug_noise_keywords. contains n (U ''tools_agent_start ollama_api_call_start'')"
    using ex_noise_member ex_mixed_contains(1) by blast
  have "process_msg ex_env init_state ex_mixed = Done init_state"
    using t n by (simp add: process_msg_def Let_def should_ignore_engine cond_def)
  then show ?thesis
    using ex_important_member ex_mixed_contains(2) by simp
qed


section \<open>Line atomicity of the classifier\<close>

text \<open>
  A list of chunks cuts a text at line boundaries when every chunk but the last ends with
  a newline. A line is insensitive to the whitespace around it when it is blank or the
  parse gives the same result with the leading whitespace, the trailing whitespace or
  both removed (\<open>json.loads\<close> is so for spaces, tabs and carriage returns, not for the
  other characters \<open>strip\<close> removes).
\<close>

definition line_chunks :: "pystr list \<Rightarrow> bool" where
  "line_chunks cs = (\<forall>c\<in>set (butlast cs). c \<noteq> [] \<and> last c = NL)"

definition ws_insensitive :: "env \<Rightarrow> pystr \<Rightarrow> bool" where
  "ws_insensitive e l =
     (strip l = [] \<or>
      (loads e (lstrip l) = loads e l \<and> loads e (rstrip l) = loads e l
       \<and> loads e (strip l) = loads e l))"

definition blank :: "pystr \<Rightarrow> bool" where
  "blank l = (strip l = [])"

lemma split_nl_nonempty [simp]: "split_nl s \<noteq> []"
  by (induction s) (auto split: list.splits)

lemma split_nl_Cons:
  "c \<noteq> NL \<Longrightarrow> split_nl (c # s) = (c # hd (split_nl s)) # tl (split_nl s)"
  by (cases "split_nl s") auto

lemma split_nl_append_NL: "split_nl (x @ NL # y) = split_nl x @ split_nl y"
  by (induction x) (auto simp: split_nl_Cons split: list.splits)

lemma split_nl_snoc_NL: "split_nl (s @ [NL]) = split_nl s @ [[]]"
  using split_nl_append_NL [of s "[]"] by simp

lemma split_nl_snoc:
  "c \<noteq> NL \<Longrightarrow> split_nl (s @ [c]) = butlast (split_nl s) @ [last (split_nl s) @ [c]]"
proof (induction s)
  case Nil
  then show ?case by simp
next
  case (Cons a s)
  show ?case
  proof (cases "a = NL")
    case True
    with Cons show ?thesis by simp
  next
    case False
    obtain l ls where l: "split_nl s = l # ls" by (cases "split_nl s") auto
    show ?thesis
    proof (cases ls rule: rev_cases)
      case Nil
      with l Cons False show ?thesis by simp
    next
      case (snoc ls' z)
      with l Cons False show ?thesis by (simp add: butlast_append)
    qed
  qed
qed

lemma strip_Nil [simp]: "strip [] = []"
  by (simp add: strip_def lstrip_def rstrip_def)

lemma blank_Cons: "strip (c # l) = [] \<longleftrightarrow> py_isspace c \<and> strip l = []"
  by (simp add: strip_empty_iff)

lemma blank_snoc: "strip (l @ [c]) = [] \<longleftrightarrow> py_isspace c \<and> strip l = []"
  by (auto simp: strip_empty_iff)

lemma set_butlast_last: "xs \<noteq> [] \<Longrightarrow> set xs = insert (last xs) (set (butlast xs))"
  by (induction xs) auto

lemma filter_butlast_last:
  "xs \<noteq> [] \<Longrightarrow> filter P xs = filter P (butlast xs) @ (if P (last xs) then [last xs] else [])"
  by (induction xs) auto

lemma rstrip_snoc: "rstrip (s @ [c]) = (if py_isspace c then rstrip s else s @ [c])"
  by (simp add: rstrip_def)


lemma strip_lstrip [simp]: "strip (lstrip l) = strip l"
  by (simp add: strip_def lstrip_def)

lemma lstrip_Cons: "lstrip (c # s) = (if py_isspace c then lstrip s else c # s)"
  by (simp add: lstrip_def)

lemma strip_snoc_space: "py_isspace c \<Longrightarrow> strip (s @ [c]) = strip s"
proof -
  assume c: "py_isspace c"
  have "lstrip (s @ [c]) = (if lstrip s = [] then [] else lstrip s @ [c])"
    using c by (induction s) (auto simp: lstrip_Cons lstrip_def)
  then show ?thesis
    using c by (auto simp: strip_def rstrip_snoc rstrip_def)
qed

lemma strip_rstrip [simp]: "strip (rstrip l) = strip l"
proof (induction l rule: rev_induct)
  case Nil
  then show ?case by (simp add: rstrip_def)
next
  case (snoc c l)
  then show ?case by (simp add: rstrip_snoc strip_snoc_space)
qed

lemma rstrip_lstrip: "rstrip (lstrip l) = strip l"
  by (simp add: strip_def)

lemma lstrip_lines:
  "split_nl (lstrip s)
     = (case dropWhile blank (split_nl s) of [] \<Rightarrow> [[]] | l # ls \<Rightarrow> lstrip l # ls)"
proof (induction s)
  case Nil
  then show ?case by (simp add: lstrip_def blank_def)
next
  case (Cons c s)
  show ?case
  proof (cases "py_isspace c")
    case False
    then have nn: "c \<noteq> NL" by (auto simp: py_isspace_def NL_def)
    have sp: "split_nl (c # s) = (c # hd (split_nl s)) # tl (split_nl s)"
      by (rule split_nl_Cons [OF nn])
    have nb: "\<not> blank (c # hd (split_nl s))" using False by (simp add: blank_def blank_Cons)
    have ls: "lstrip (c # s) = c # s" "lstrip (c # hd (split_nl s)) = c # hd (split_nl s)"
      using False by (simp_all add: lstrip_Cons)
    show ?thesis using nb by (simp add: ls sp del: split_nl.simps)
  next
    case True
    show ?thesis
    proof (cases "c = NL")
      case nl: True
      then show ?thesis using True Cons.IH by (simp add: lstrip_Cons blank_def)
    next
      case False
      obtain l r where l: "split_nl s = l # r" by (cases "split_nl s") auto
      with False have sp: "split_nl (c # s) = (c # l) # r" by simp
      have ls: "lstrip (c # s) = lstrip s" "lstrip (c # l) = lstrip l"
        using True by (simp_all add: lstrip_Cons)
      show ?thesis
        using True Cons.IH
        by (simp add: sp l ls blank_def blank_Cons del: split_nl.simps)
    qed
  qed
qed

lemma rstrip_lines:
  "split_nl (rstrip s)
     = (case dropWhile blank (rev (split_nl s)) of
          [] \<Rightarrow> [[]] | l # ls \<Rightarrow> rev ls @ [rstrip l])"
proof (induction s rule: rev_induct)
  case Nil
  then show ?case by (simp add: rstrip_def blank_def)
next
  case (snoc c s)
  let ?L = "split_nl s"
  have L: "rev ?L = last ?L # rev (butlast ?L)"
    by (metis append_butlast_last_id rev.simps(2) rev_append rev_rev_ident split_nl_nonempty
        append_Nil rev.simps(1) append_Cons)
  show ?case
  proof (cases "py_isspace c")
    case False
    then have nn: "c \<noteq> NL" by (auto simp: py_isspace_def NL_def)
    have "\<not> blank (last ?L @ [c])" using False by (simp add: blank_def blank_snoc)
    then show ?thesis
      using False by (simp add: rstrip_snoc split_nl_snoc [OF nn])
  next
    case True
    show ?thesis
    proof (cases "c = NL")
      case nl: True
      then show ?thesis
        using True snoc.IH by (simp add: rstrip_snoc split_nl_snoc_NL blank_def)
    next
      case False
      have b: "blank (last ?L @ [c]) = blank (last ?L)"
        using True by (simp add: blank_def blank_snoc)
      show ?thesis
        using True snoc.IH
        by (simp add: rstrip_snoc split_nl_snoc [OF False] b) (simp add: L)
    qed
  qed
qed


lemma process_line_blank: "strip l = [] \<Longrightarrow> process_line e s l = Done s"
  by (simp add: process_line_def)

lemma process_line_cong:
  "strip a = strip b \<Longrightarrow> loads e a = loads e b \<Longrightarrow> process_line e st a = process_line e st b"
  by (simp add: process_line_def)

lemma process_lines_append:
  "process_lines e st (xs @ ys)
     = (case process_lines e st xs of
          Done s \<Rightarrow> process_lines e s ys | Raised x s \<Rightarrow> Raised x s)"
  by (induction xs arbitrary: st) (auto split: outcome.splits)

lemma process_lines_blanks: "\<forall>l\<in>set bs. blank l \<Longrightarrow> process_lines e st bs = Done st"
  by (induction bs) (auto simp: blank_def process_line_blank)

lemma process_lines_dropWhile:
  "process_lines e st (dropWhile blank ls) = process_lines e st ls"
proof -
  have "\<forall>l\<in>set (takeWhile blank ls). blank l"
    by (auto dest: set_takeWhileD)
  then have "process_lines e st (takeWhile blank ls) = Done st"
    by (rule process_lines_blanks)
  then have "process_lines e st (takeWhile blank ls @ dropWhile blank ls)
      = process_lines e st (dropWhile blank ls)"
    by (simp only: process_lines_append outcome.case)
  then show ?thesis by simp
qed

lemma process_lines_drop_trailing:
  "process_lines e st (rev (dropWhile blank (rev ls))) = process_lines e st ls"
proof -
  have ls: "rev (dropWhile blank (rev ls)) @ rev (takeWhile blank (rev ls)) = ls"
    by (metis rev_append rev_rev_ident takeWhile_dropWhile_id)
  have "\<forall>l\<in>set (rev (takeWhile blank (rev ls))). blank l"
    by (auto dest: set_takeWhileD)
  then have "process_lines e s (rev (takeWhile blank (rev ls))) = Done s" for s
    by (rule process_lines_blanks)
  then have "process_lines e st (rev (dropWhile blank (rev ls)) @ rev (takeWhile blank (rev ls)))
      = process_lines e st (rev (dropWhile blank (rev ls)))"
    by (simp add: process_lines_append split: outcome.splits)
  then show ?thesis by (simp only: ls)
qed

lemma lstrip_run:
  assumes "\<forall>l\<in>set (split_nl s). ws_insensitive e l"
  shows "process_lines e st (split_nl (lstrip s)) = process_lines e st (split_nl s)"
proof (cases "dropWhile blank (split_nl s)")
  case Nil
  have "process_lines e st (split_nl s) = process_lines e st (dropWhile blank (split_nl s))"
    by (rule process_lines_dropWhile [symmetric])
  also have "\<dots> = Done st" by (simp only: Nil process_lines.simps)
  finally have "process_lines e st (split_nl s) = Done st" .
  moreover have "split_nl (lstrip s) = [[]]" by (simp only: lstrip_lines Nil list.case)
  ultimately show ?thesis by (simp add: process_line_blank)
next
  case (Cons l ls)
  then have "l \<in> set (split_nl s)" by (metis list.set_intros(1) set_dropWhileD)
  moreover have "\<not> blank l" using Cons by (metis hd_dropWhile list.sel(1) list.distinct(1))
  ultimately have "loads e (lstrip l) = loads e l"
    using assms by (auto simp: ws_insensitive_def blank_def)
  then have "process_line e st (lstrip l) = process_line e st l"
    by (intro process_line_cong) simp_all
  then have "process_lines e st (lstrip l # ls) = process_lines e st (l # ls)" by simp
  then show ?thesis
    using Cons process_lines_dropWhile [of e st "split_nl s"] by (simp add: lstrip_lines)
qed

lemma rstrip_run:
  assumes "\<forall>l\<in>set (split_nl s). blank l \<or> loads e (rstrip l) = loads e l"
  shows "process_lines e st (split_nl (rstrip s)) = process_lines e st (split_nl s)"
proof (cases "dropWhile blank (rev (split_nl s))")
  case Nil
  have "process_lines e st (split_nl s)
      = process_lines e st (rev (dropWhile blank (rev (split_nl s))))"
    by (rule process_lines_drop_trailing [symmetric])
  also have "\<dots> = Done st" by (simp only: Nil rev.simps process_lines.simps)
  finally have "process_lines e st (split_nl s) = Done st" .
  moreover have "split_nl (rstrip s) = [[]]" by (simp only: rstrip_lines Nil list.case)
  ultimately show ?thesis by (simp add: process_line_blank)
next
  case (Cons l ls)
  then have "l \<in> set (split_nl s)"
    by (metis list.set_intros(1) set_dropWhileD set_rev)
  moreover have "\<not> blank l" using Cons by (metis hd_dropWhile list.sel(1) list.distinct(1))
  ultimately have "loads e (rstrip l) = loads e l" using assms by auto
  then have same: "process_line e s' (rstrip l) = process_line e s' l" for s'
    by (intro process_line_cong) simp_all
  have "process_lines e st (rev ls @ [rstrip l]) = process_lines e st (rev ls @ [l])"
    by (simp add: process_lines_append same split: outcome.splits)
  then show ?thesis
    using Cons process_lines_drop_trailing [of e st "split_nl s"] by (simp add: rstrip_lines)
qed

lemma strip_run:
  assumes "\<forall>l\<in>set (split_nl s). ws_insensitive e l"
  shows "process_lines e st (split_nl (strip s)) = process_lines e st (split_nl s)"
proof -
  have "\<forall>l\<in>set (split_nl (lstrip s)). blank l \<or> loads e (rstrip l) = loads e l"
  proof (cases "dropWhile blank (split_nl s)")
    case Nil
    have "split_nl (lstrip s) = [[]]" by (simp only: lstrip_lines Nil list.case)
    then show ?thesis by (simp add: blank_def)
  next
    case (Cons l ls)
    then have l: "l \<in> set (split_nl s)" by (metis list.set_intros(1) set_dropWhileD)
    have ls: "set ls \<subseteq> set (split_nl s)"
      using Cons by (metis set_dropWhileD set_subset_Cons subsetI subsetD)
    have "blank (lstrip l) \<or> loads e (rstrip (lstrip l)) = loads e (lstrip l)"
      using assms l by (auto simp: ws_insensitive_def blank_def rstrip_lstrip)
    moreover have "\<forall>x\<in>set ls. blank x \<or> loads e (rstrip x) = loads e x"
      using assms ls by (auto simp: ws_insensitive_def blank_def)
    ultimately show ?thesis using Cons by (simp add: lstrip_lines)
  qed
  from rstrip_run [OF this] lstrip_run [OF assms] show ?thesis by (simp add: strip_def)
qed

text \<open>
  C7 (as the code has it). A diagnostic text cut into chunks at line boundaries leaves the
  same final state chunk by chunk as it does whole, provided every line of the text is
  insensitive to the whitespace around it and the loop over the whole text ends without
  an exception escaping a line. The clock is read as the same value throughout, and a
  redraw has the same outcome on the same state.
\<close>

theorem line_atomicity:
  assumes "line_chunks cs"
    and "\<forall>l\<in>set (split_nl (concat cs)). ws_insensitive e l"
    and "\<exists>s'. process_lines e st (split_nl (strip (concat cs))) = Done s'"
  shows "foldl (process_system_messages e) st cs = process_system_messages e st (concat cs)"
  using assms
proof (induction cs arbitrary: st)
  case Nil
  show ?case by (simp add: process_system_messages_def process_line_blank outcome_state_def)
next
  case (Cons c cs)
  show ?case
  proof (cases cs)
    case Nil
    then show ?thesis by simp
  next
    case (Cons c2 rest)
    let ?T = "concat cs"
    from Cons Cons.prems(1) have "c \<noteq> [] \<and> last c = NL" by (simp add: line_chunks_def)
    then obtain c' where c: "c = c' @ [NL]" by (metis append_butlast_last_id)
    have whole: "split_nl (concat (c # cs)) = split_nl c' @ split_nl ?T"
      by (simp add: c split_nl_append_NL)
    have lc: "line_chunks cs" using Cons Cons.prems(1) by (simp add: line_chunks_def)
    have tail: "\<forall>l\<in>set (split_nl ?T). ws_insensitive e l"
      using Cons.prems(2) whole by simp
    have "\<forall>l\<in>set (split_nl c'). ws_insensitive e l"
      using Cons.prems(2) whole by simp
    then have headl: "\<forall>l\<in>set (split_nl c). ws_insensitive e l"
      by (simp add: c split_nl_snoc_NL ws_insensitive_def)
    from Cons.prems(3) obtain s' where
      "process_lines e st (split_nl (strip (concat (c # cs)))) = Done s'" by blast
    then have run: "process_lines e st (split_nl c' @ split_nl ?T) = Done s'"
      using strip_run [OF Cons.prems(2), of st] by (simp only: whole)
    then obtain s1 where s1: "process_lines e st (split_nl c') = Done s1"
      and s2: "process_lines e s1 (split_nl ?T) = Done s'"
      by (auto simp: process_lines_append split: outcome.splits)
    have "process_lines e st (split_nl (strip c)) = process_lines e st (split_nl c' @ [[]])"
      using strip_run [OF headl, of st] by (simp add: c split_nl_snoc_NL)
    also have "\<dots> = Done s1"
      by (simp add: process_lines_append s1 process_line_blank)
    finally have first: "process_system_messages e st c = s1"
      by (simp add: process_system_messages_def outcome_state_def)
    have t: "process_lines e s1 (split_nl (strip ?T)) = Done s'"
      using strip_run [OF tail, of s1] s2 by simp
    then have "foldl (process_system_messages e) s1 cs = process_system_messages e s1 ?T"
      using Cons.IH [OF lc tail, of s1] by blast
    also have "\<dots> = s'" using t by (simp add: process_system_messages_def outcome_state_def)
    finally have split: "foldl (process_system_messages e) st (c # cs) = s'"
      by (simp add: first)
    have "process_system_messages e st (concat (c # cs)) = s'"
      using \<open>process_lines e st (split_nl (strip (concat (c # cs)))) = Done s'\<close>
      by (simp add: process_system_messages_def outcome_state_def del: concat.simps)
    with split show ?thesis by simp
  qed
qed


text \<open>
  Diagnostic lines and JSON objects of a primary output, with the values \<open>json.loads\<close>
  returns for them. On a text of 4301 digits it raises \<open>ValueError\<close> (the integer is
  over the limit of 4300 digits); on every other text the examples parse it raises
  \<open>JSONDecodeError\<close>. The padded line is the activity line followed by a space, which
  \<open>json.loads\<close> ignores; the last line is the message line after a vertical tab, which
  \<open>json.loads\<close> rejects and \<open>strip\<close> removes.
\<close>

definition ex_line_bad :: pystr where
  \<open>ex_line_bad = U ''{"type":"assistant_message","content":5}''\<close>

definition ex_line_hi :: pystr where
  \<open>ex_line_hi = U ''{"type":"assistant_message","content":"hi"}''\<close>

definition ex_line_activity :: pystr where
  \<open>ex_line_activity = U ''{"type":"tool_activity","activity":"reading file"}''\<close>

definition ex_line_padded :: pystr where
  "ex_line_padded = ex_line_activity @ [SP]"

definition ex_line_vt :: pystr where
  "ex_line_vt = 11 # ex_line_hi"

definition ex_obj_a :: pystr where
  \<open>ex_obj_a = U ''{"content":"a","metadata":{}}''\<close>

definition ex_obj_b :: pystr where
  \<open>ex_obj_b = U ''{"content":"b","metadata":{}}''\<close>

definition ex_obj_star :: pystr where
  \<open>ex_obj_star = U ''{"content":"a*b","metadata":{}}''\<close>

definition ex_table :: "(pystr \<times> json) list" where
  "ex_table =
     [(ex_line_bad, JDict [(U ''type'', JStr (U ''assistant_message'')), (U ''content'', JInt 5)]),
      (ex_line_hi, JDict [(U ''type'', JStr (U ''assistant_message'')),
                          (U ''content'', JStr (U ''hi''))]),
      (ex_line_activity, JDict [(U ''type'', JStr (U ''tool_activity'')),
                                (U ''activity'', JStr (U ''reading file''))]),
      (ex_line_padded, JDict [(U ''type'', JStr (U ''tool_activity'')),
                              (U ''activity'', JStr (U ''reading file''))]),
      (ex_obj_a, JDict [(U ''content'', JStr (U ''a'')), (U ''metadata'', JDict [])]),
      (ex_obj_b, JDict [(U ''content'', JStr (U ''b'')), (U ''metadata'', JDict [])]),
      (ex_obj_star, JDict [(U ''content'', JStr (U ''a*b'')), (U ''metadata'', JDict [])]),
      (U ''{}'', JDict [])]"

definition ex_digits :: pystr where
  "ex_digits = replicate 4301 57"

definition ex_loads :: "pystr \<Rightarrow> load_result" where
  "ex_loads s =
     (case map_of ex_table s of
        Some v \<Rightarrow> Parsed v
      | None \<Rightarrow> if s = ex_digits then LoadError ValueError else DecodeError)"

definition ex_json_env :: env where
  "ex_json_env = ex_env\<lparr>loads := ex_loads\<rparr>"

lemmas ex_text_defs = ex_line_bad_def ex_line_hi_def ex_line_activity_def ex_line_padded_def
  ex_line_vt_def ex_obj_a_def ex_obj_b_def ex_obj_star_def

lemma split_nl_single: "NL \<notin> set l \<Longrightarrow> split_nl l = [l]"
  by (induction l) auto

lemma strip_fixed_sides: "strip l = l \<Longrightarrow> lstrip l = l \<and> rstrip l = l"
proof (cases "l = []")
  case True
  then show ?thesis by (simp add: lstrip_def rstrip_def)
next
  case False
  assume a: "strip l = l"
  then have "\<not> py_isspace (hd l)" using strip_ends(1) [of l] False by simp
  then have "lstrip l = l" using False by (cases l) (auto simp: lstrip_def)
  then show ?thesis using a by (simp add: strip_def)
qed

lemma lstrip_keeps: "l \<noteq> [] \<Longrightarrow> \<not> py_isspace (hd l) \<Longrightarrow> lstrip (l @ r) = l @ r"
  by (cases l) (simp_all add: lstrip_def)

lemma ex_lines_shape:
  "NL \<notin> set ex_line_bad" "NL \<notin> set ex_line_hi" "NL \<notin> set ex_line_activity"
  "NL \<notin> set ex_line_padded" "NL \<notin> set ex_line_vt"
  "strip ex_line_bad = ex_line_bad" "strip ex_line_hi = ex_line_hi"
  "strip ex_line_activity = ex_line_activity"
  "ex_line_bad \<noteq> []" "ex_line_hi \<noteq> []" "ex_line_activity \<noteq> []"
  by (simp_all add: ex_text_defs U_def NL_def SP_def strip_fixed py_isspace_def)

lemma ex_padded_shape:
  "strip ex_line_padded = ex_line_activity" "rstrip ex_line_padded = ex_line_activity"
  "lstrip ex_line_padded = ex_line_padded" "strip ex_line_vt = ex_line_hi"
proof -
  have sp: "py_isspace SP" "py_isspace 11" by (simp_all add: py_isspace_def SP_def)
  have a: "lstrip ex_line_activity = ex_line_activity" "rstrip ex_line_activity = ex_line_activity"
    using strip_fixed_sides [OF ex_lines_shape(8)] by simp_all
  show "strip ex_line_padded = ex_line_activity"
    using sp(1) by (simp add: ex_line_padded_def strip_snoc_space ex_lines_shape)
  show "rstrip ex_line_padded = ex_line_activity"
    using sp(1) a by (simp add: ex_line_padded_def rstrip_snoc)
  have "\<not> py_isspace (hd ex_line_activity)"
    using strip_ends(1) [of ex_line_activity] ex_lines_shape(8,11) by simp
  then show "lstrip ex_line_padded = ex_line_padded"
    using ex_lines_shape(11) by (simp add: ex_line_padded_def lstrip_keeps)
  show "strip ex_line_vt = ex_line_hi"
    using sp(2) by (simp add: ex_line_vt_def strip_def lstrip_Cons)
      (simp add: strip_def [symmetric] strip_lstrip ex_lines_shape)
qed

lemma ex_not_digits: "length s < 4301 \<Longrightarrow> (s = ex_digits) = False"
  by (auto simp: ex_digits_def)

lemma ex_loads_values:
  "ex_loads ex_line_bad
     = Parsed (JDict [(U ''type'', JStr (U ''assistant_message'')), (U ''content'', JInt 5)])"
  "ex_loads ex_line_hi
     = Parsed (JDict [(U ''type'', JStr (U ''assistant_message'')),
                      (U ''content'', JStr (U ''hi''))])"
  "ex_loads ex_line_activity
     = Parsed (JDict [(U ''type'', JStr (U ''tool_activity'')),
                      (U ''activity'', JStr (U ''reading file''))])"
  "ex_loads ex_line_padded
     = Parsed (JDict [(U ''type'', JStr (U ''tool_activity'')),
                      (U ''activity'', JStr (U ''reading file''))])"
  "ex_loads ex_line_vt = DecodeError"
  by (simp_all add: ex_loads_def ex_table_def ex_text_defs U_def SP_def ex_not_digits)

lemma ex_nonblank: "strip (U ''hi'') \<noteq> []" "strip (U ''reading file'') \<noteq> []"
  by (simp_all add: str_simps)

lemma ex_line_outcomes:
  "process_line ex_json_env s ex_line_bad = Raised AttributeError s"
  "process_line ex_json_env s ex_line_hi
     = Done (append_message
         \<lparr>role = U ''assistant'', content = JStr (U ''hi''), timestamp = 100,
          immediate = True, source = Some (JStr []), tool = None\<rparr> s)"
  "process_line ex_json_env s ex_line_activity
     = Done (update_status ex_json_env
         (s\<lparr>current_tool_activity := U ''reading file'', tool_start_time := Some 100,
             tool_progress_dots := 0\<rparr>))"
  "process_line ex_json_env s ex_line_padded
     = Done (update_status ex_json_env
         (s\<lparr>current_tool_activity := U ''reading file'', tool_start_time := Some 100,
             tool_progress_dots := 0\<rparr>))"
  "process_line ex_json_env s ex_line_vt = Done s"
  by (simp_all add: process_line_def ex_lines_shape ex_padded_shape ex_json_env_def ex_env_def
      ex_loads_values process_msg_def Let_def dict_get_def should_ignore_other U_neq cond_def
      with_get_def redraw_def ex_nonblank [unfolded U_def, simplified] U_def)


lemma strip_line_NL: "strip l = l \<Longrightarrow> l \<noteq> [] \<Longrightarrow> strip (l @ [NL]) = l"
proof -
  assume a: "strip l = l" "l \<noteq> []"
  have "py_isspace NL" by (simp add: py_isspace_def NL_def)
  then show ?thesis using a by (simp add: strip_snoc_space)
qed

lemma strip_two_lines:
  assumes "\<not> py_isspace (hd a)" "a \<noteq> []" "\<not> py_isspace (last b)" "b \<noteq> []"
  shows "strip (a @ NL # b) = a @ NL # b"
  by (rule strip_fixed) (use assms in simp)

lemma ex_ends:
  "\<not> py_isspace (hd ex_line_bad)" "\<not> py_isspace (hd ex_line_activity)"
  "\<not> py_isspace (hd ex_line_padded)"
  "\<not> py_isspace (last ex_line_hi)" "\<not> py_isspace (last ex_line_vt)"
  "ex_line_padded \<noteq> []" "ex_line_vt \<noteq> []"
  by (simp_all add: ex_text_defs U_def py_isspace_def SP_def)

lemma psm_one_line:
  "strip c = l \<Longrightarrow> NL \<notin> set l
     \<Longrightarrow> process_system_messages e st c = outcome_state (process_line e st l)"
  by (simp add: process_system_messages_def split_nl_single outcome_state_def
      split: outcome.splits)

lemma psm_two_lines:
  "strip c = a @ NL # b \<Longrightarrow> NL \<notin> set a \<Longrightarrow> NL \<notin> set b
     \<Longrightarrow> process_system_messages e st c
         = outcome_state (case process_line e st a of
                            Done s \<Rightarrow> process_line e s b | Raised x s \<Rightarrow> Raised x s)"
  by (simp add: process_system_messages_def split_nl_append_NL split_nl_single
      outcome_state_def split: outcome.splits)

text \<open>
  C7 as stated fails, in two ways. The first line of the first text has a number as
  content; \<open>content.strip()\<close> raises, and the handler around the whole loop ends the
  call: given whole, the second line is never handled and no message is appended, while
  given in two chunks the second chunk appends the message. In the second text the
  message line follows a vertical tab: inside the whole text the parse rejects it, while
  at the start of a chunk \<open>strip\<close> removes the tab and the message is appended.
\<close>

theorem line_atomicity_counterexample:
  "foldl (process_system_messages ex_json_env) init_state [ex_line_bad @ [NL], ex_line_hi]
     \<noteq> process_system_messages ex_json_env init_state (concat [ex_line_bad @ [NL], ex_line_hi])
   \<and> foldl (process_system_messages ex_json_env) init_state [ex_line_activity @ [NL], ex_line_vt]
     \<noteq> process_system_messages ex_json_env init_state
         (concat [ex_line_activity @ [NL], ex_line_vt])"
proof -
  let ?hi = "\<lparr>role = U ''assistant'', content = JStr (U ''hi''), timestamp = 100,
          immediate = True, source = Some (JStr []), tool = None\<rparr>"
  have whole1: "process_system_messages ex_json_env init_state
      (concat [ex_line_bad @ [NL], ex_line_hi]) = init_state"
    using psm_two_lines [of "ex_line_bad @ NL # ex_line_hi" ex_line_bad ex_line_hi
        ex_json_env init_state]
    by (simp add: strip_two_lines ex_ends ex_lines_shape ex_line_outcomes outcome_state_def)
  have one: "process_system_messages ex_json_env st (ex_line_bad @ [NL]) = st" for st
    using psm_one_line [of "ex_line_bad @ [NL]" ex_line_bad ex_json_env st]
    by (simp add: strip_line_NL ex_lines_shape ex_line_outcomes outcome_state_def)
  have two: "process_system_messages ex_json_env st ex_line_hi = append_message ?hi st" for st
    using psm_one_line [of ex_line_hi ex_line_hi ex_json_env st]
    by (simp add: ex_lines_shape ex_line_outcomes outcome_state_def)
  have "messages (foldl (process_system_messages ex_json_env) init_state
           [ex_line_bad @ [NL], ex_line_hi]) \<noteq> messages init_state"
    by (simp add: one two append_message_def)
  then have first: "foldl (process_system_messages ex_json_env) init_state
        [ex_line_bad @ [NL], ex_line_hi]
     \<noteq> process_system_messages ex_json_env init_state (concat [ex_line_bad @ [NL], ex_line_hi])"
    using whole1 by auto
  let ?act = "update_status ex_json_env
         (init_state\<lparr>current_tool_activity := U ''reading file'', tool_start_time := Some 100,
             tool_progress_dots := 0\<rparr>)"
  have whole2: "process_system_messages ex_json_env init_state
      (concat [ex_line_activity @ [NL], ex_line_vt]) = ?act"
    using psm_two_lines [of "ex_line_activity @ NL # ex_line_vt" ex_line_activity ex_line_vt
        ex_json_env init_state]
    by (simp add: strip_two_lines ex_ends ex_lines_shape ex_line_outcomes outcome_state_def)
  have three: "process_system_messages ex_json_env init_state (ex_line_activity @ [NL]) = ?act"
    using psm_one_line [of "ex_line_activity @ [NL]" ex_line_activity ex_json_env init_state]
    by (simp add: strip_line_NL ex_lines_shape ex_line_outcomes outcome_state_def)
  have four: "process_system_messages ex_json_env st ex_line_vt = append_message ?hi st" for st
    using psm_one_line [of ex_line_vt ex_line_hi ex_json_env st]
    by (simp add: ex_padded_shape ex_lines_shape ex_line_outcomes outcome_state_def)
  have "messages (foldl (process_system_messages ex_json_env) init_state
           [ex_line_activity @ [NL], ex_line_vt]) \<noteq> messages ?act"
    by (simp add: three four append_message_def)
  then have second: "foldl (process_system_messages ex_json_env) init_state
        [ex_line_activity @ [NL], ex_line_vt]
     \<noteq> process_system_messages ex_json_env init_state
         (concat [ex_line_activity @ [NL], ex_line_vt])"
    using whole2 by auto
  from first second show ?thesis by blast
qed

theorem line_atomicity_witness:
  "foldl (process_system_messages ex_json_env) init_state [ex_line_padded @ [NL], ex_line_hi]
     = process_system_messages ex_json_env init_state
         (concat [ex_line_padded @ [NL], ex_line_hi])
   \<and> map content (messages (process_system_messages ex_json_env init_state
         (concat [ex_line_padded @ [NL], ex_line_hi]))) = [JStr (U ''hi'')]
   \<and> current_tool_activity (process_system_messages ex_json_env init_state
         (concat [ex_line_padded @ [NL], ex_line_hi])) = U ''reading file''"
proof -
  let ?whole = "concat [ex_line_padded @ [NL], ex_line_hi]"
  let ?final = "append_message
         \<lparr>role = U ''assistant'', content = JStr (U ''hi''), timestamp = 100,
          immediate = True, source = Some (JStr []), tool = None\<rparr>
         (update_status ex_json_env
           (init_state\<lparr>current_tool_activity := U ''reading file'', tool_start_time := Some 100,
               tool_progress_dots := 0\<rparr>))"
  have w: "?whole = ex_line_padded @ NL # ex_line_hi" by simp
  have s: "strip ?whole = ex_line_padded @ NL # ex_line_hi"
    unfolding w by (rule strip_two_lines) (simp_all add: ex_ends ex_lines_shape)
  have lines: "split_nl (ex_line_padded @ NL # ex_line_hi) = [ex_line_padded, ex_line_hi]"
    by (simp add: split_nl_append_NL split_nl_single ex_lines_shape)
  have chunks: "line_chunks [ex_line_padded @ [NL], ex_line_hi]"
    by (simp add: line_chunks_def)
  have hi: "lstrip ex_line_hi = ex_line_hi" "rstrip ex_line_hi = ex_line_hi"
    using strip_fixed_sides [OF ex_lines_shape(7)] by simp_all
  have l: "loads ex_json_env = ex_loads" by (simp add: ex_json_env_def)
  have ins: "\<forall>l\<in>set (split_nl ?whole). ws_insensitive ex_json_env l"
    unfolding w lines
    by (simp add: ws_insensitive_def ex_padded_shape ex_lines_shape hi l ex_loads_values)
  have run: "process_lines ex_json_env init_state (split_nl (strip ?whole)) = Done ?final"
    unfolding s lines by (simp add: ex_line_outcomes)
  then have ok: "\<exists>s'. process_lines ex_json_env init_state (split_nl (strip ?whole)) = Done s'"
    by blast
  have val: "process_system_messages ex_json_env init_state ?whole = ?final"
    using run by (simp only: process_system_messages_def outcome_state_def outcome.case)
  have v: "map content (messages (process_system_messages ex_json_env init_state ?whole))
        = [JStr (U ''hi'')]"
    "current_tool_activity (process_system_messages ex_json_env init_state ?whole)
        = U ''reading file''"
    unfolding val by (simp_all add: append_message_def update_status_def init_state_def)
  from line_atomicity [OF chunks ins ok] v show ?thesis by blast
qed


section \<open>The response extractor (\<open>send_message\<close>, zero exit code)\<close>

definition LB :: nat where "LB = 123"
definition RB :: nat where "RB = 125"

text \<open>
  Lines 598--602: a span is accepted when it parses to an object that has both keys
  (any exception of the parse is swallowed).
\<close>

definition accepts :: "env \<Rightarrow> pystr \<Rightarrow> bool" where
  "accepts e potential_json =
     (case loads e potential_json of
        Parsed (JDict d) \<Rightarrow> U ''content'' \<in> set (map fst d) \<and> U ''metadata'' \<in> set (map fst d)
      | _ \<Rightarrow> False)"

text \<open>
  Lines 583--603: the scan of \<open>clean_stdout\<close>. \<open>i\<close> is the index of the next character,
  \<open>start_pos\<close> is \<open>None\<close> where the source holds \<open>-1\<close>, and a candidate is the span
  with the position where it starts.
\<close>

fun scan :: "env \<Rightarrow> pystr \<Rightarrow> nat \<Rightarrow> int \<Rightarrow> nat option \<Rightarrow> (pystr \<times> nat) list \<Rightarrow> pystr
    \<Rightarrow> (pystr \<times> nat) list" where
  "scan e whole i brace_count start_pos cands [] = cands"
| "scan e whole i brace_count start_pos cands (ch # rest) =
     (if ch = LB then
        scan e whole (i + 1) (brace_count + 1)
          (if brace_count = 0 then Some i else start_pos) cands rest
      else if ch = RB then
        (case start_pos of
           Some sp \<Rightarrow>
             if brace_count - 1 = 0 then
               (let potential_json = take (i + 1 - sp) (drop sp whole)
                in scan e whole (i + 1) (brace_count - 1) None
                     (if accepts e potential_json then cands @ [(potential_json, sp)]
                      else cands)
                     rest)
             else scan e whole (i + 1) (brace_count - 1) start_pos cands rest
         | None \<Rightarrow> scan e whole (i + 1) (brace_count - 1) start_pos cands rest)
      else scan e whole (i + 1) brace_count start_pos cands rest)"

definition json_candidates :: "env \<Rightarrow> pystr \<Rightarrow> (pystr \<times> nat) list" where
  "json_candidates e clean_stdout = scan e clean_stdout 0 0 None [] clean_stdout"

text \<open>Lines 613--622: the index just after the brace that closes the first one, if any.\<close>

fun first_close :: "pystr \<Rightarrow> int \<Rightarrow> nat \<Rightarrow> nat option" where
  "first_close [] brace_count i = None"
| "first_close (ch # rest) brace_count i =
     (if ch = LB then first_close rest (brace_count + 1) (i + 1)
      else if ch = RB then
        (if brace_count - 1 = 0 then Some (i + 1) else first_close rest (brace_count - 1) (i + 1))
      else first_close rest brace_count (i + 1))"

text \<open>Lines 605--629: the text handed to the final parse.\<close>

definition select_json :: "env \<Rightarrow> pystr \<Rightarrow> pystr" where
  "select_json e clean_stdout =
     (let cands = json_candidates e clean_stdout
      in if cands \<noteq> [] then fst (last cands)
         else let json_part = dropWhile (\<lambda>c. c \<noteq> LB) clean_stdout
              in if json_part \<noteq> [] then
                   (case first_close json_part 0 0 of
                      Some json_end \<Rightarrow> take json_end json_part
                    | None \<Rightarrow> json_part)
                 else clean_stdout)"

definition error_text :: "env \<Rightarrow> exc \<Rightarrow> json \<Rightarrow> json" where
  "error_text e x v = JStr (U ''Error: '' @ exc_str e x v)"

text \<open>
  Lines 637--704: the content of the assistant message. A parse that raises
  \<open>JSONDecodeError\<close> gives the trimmed output, or \<open>No response\<close> when that is empty.
  A parsed object gives its cleaned content. A parse that raises anything else, a
  value without \<open>get\<close>, a content without \<open>replace\<close> or without \<open>len\<close>: the
  outer handler (line 695) turns the exception into an error message.
\<close>

definition parse_response :: "env \<Rightarrow> pystr \<Rightarrow> pystr \<Rightarrow> json" where
  "parse_response e clean_stdout clean_json =
     (case loads e clean_json of
        DecodeError \<Rightarrow> JStr (if clean_stdout \<noteq> [] then clean_stdout else U ''No response'')
      | LoadError x \<Rightarrow> error_text e x (JStr clean_json)
      | Parsed (JDict d) \<Rightarrow>
          (case dict_get d (U ''content'') (JStr (U ''No response'')) of
             JStr c \<Rightarrow> JStr (clean_response_formatting c)
           | JList [] \<Rightarrow> JList []
           | JDict [] \<Rightarrow> JDict []
           | v \<Rightarrow> if truthy v then error_text e AttributeError v else error_text e TypeError v)
      | Parsed v \<Rightarrow> error_text e AttributeError v)"

definition extract_response :: "env \<Rightarrow> pystr \<Rightarrow> json" where
  "extract_response e full_stdout =
     (let clean_stdout = strip full_stdout
      in parse_response e clean_stdout (select_json e clean_stdout))"

text \<open>Lines 651--671: on exit code 0 exactly one assistant message is appended.\<close>

definition send_zero_exit :: "env \<Rightarrow> state \<Rightarrow> pystr \<Rightarrow> state" where
  "send_zero_exit e st full_stdout =
     append_message (mk_message e (U ''assistant'') (extract_response e full_stdout)) st"





text \<open>
  Texts on which the brace counter finds the objects: a segment without braces, and an
  object that opens with a brace, closes with the matching one and keeps the counter
  above zero in between.
\<close>

definition brace_free :: "pystr \<Rightarrow> bool" where
  "brace_free s = (LB \<notin> set s \<and> RB \<notin> set s)"




lemma LB_RB [simp]: "LB \<noteq> RB" "RB \<noteq> LB"
  by (simp_all add: LB_def RB_def)

lemma scan_brace_free:
  "brace_free seg \<Longrightarrow>
     scan e whole i bc sp cands (seg @ rest) = scan e whole (i + length seg) bc sp cands rest"
  by (induction seg arbitrary: i) (auto simp: brace_free_def)





text \<open>
  C8 (as the code has it). When the final parse of the chosen text raises
  \<open>JSONDecodeError\<close>, the assistant message appended is the trimmed primary output
  verbatim if that is not empty, and the text \<open>No response\<close> if it is. When the
  parse raises any other exception, the message is the error text of that exception.
  In every case the call appends exactly one assistant message and raises nothing.
\<close>

theorem parse_failure_fallback:
  "(loads e (select_json e (strip out)) = DecodeError \<longrightarrow>
      extract_response e out
        = JStr (if strip out \<noteq> [] then strip out else U ''No response'')
      \<and> messages (send_zero_exit e st out)
        = messages st @ [mk_message e (U ''assistant'')
            (JStr (if strip out \<noteq> [] then strip out else U ''No response''))])
   \<and> (loads e (select_json e (strip out)) = LoadError x \<longrightarrow>
      extract_response e out = error_text e x (JStr (select_json e (strip out)))
      \<and> messages (send_zero_exit e st out)
        = messages st @ [mk_message e (U ''assistant'')
            (error_text e x (JStr (select_json e (strip out))))])
   \<and> length (messages (send_zero_exit e st out)) = Suc (length (messages st))
   \<and> role (last (messages (send_zero_exit e st out))) = U ''assistant''"
  by (simp add: extract_response_def parse_response_def Let_def send_zero_exit_def
      append_message_def mk_message_def)

lemma select_json_brace_free: "brace_free s \<Longrightarrow> select_json e s = s"
proof -
  assume b: "brace_free s"
  have "json_candidates e s = []"
    using scan_brace_free [OF b, of e s 0 0 None "[]" "[]"] by (simp add: json_candidates_def)
  moreover have "dropWhile (\<lambda>c. c \<noteq> LB) s = []"
    using b by (auto simp: brace_free_def)
  ultimately show ?thesis by (simp add: select_json_def Let_def)
qed

lemma ex_obj_loads:
  "loads ex_json_env ex_obj_a
     = Parsed (JDict [(U ''content'', JStr (U ''a'')), (U ''metadata'', JDict [])])"
  "loads ex_json_env ex_obj_b
     = Parsed (JDict [(U ''content'', JStr (U ''b'')), (U ''metadata'', JDict [])])"
  "loads ex_json_env ex_obj_star
     = Parsed (JDict [(U ''content'', JStr (U ''a*b'')), (U ''metadata'', JDict [])])"
  "loads ex_json_env (U ''{}'') = Parsed (JDict [])"
  "loads ex_json_env (U ''plain text'') = DecodeError"
  "loads ex_json_env [] = DecodeError"
  by (simp_all add: ex_json_env_def ex_loads_def ex_table_def ex_text_defs U_def SP_def
      ex_not_digits)

lemma ex_digits_loads: "loads ex_json_env ex_digits = LoadError ValueError"
proof -
  have "\<forall>k\<in>set (map fst ex_table). length k < 100"
    by (simp add: ex_table_def ex_text_defs U_def)
  moreover have "\<not> length ex_digits < 100" by (simp add: ex_digits_def)
  ultimately have "ex_digits \<notin> set (map fst ex_table)" by blast
  then have "map_of ex_table ex_digits = None"
    by (simp add: map_of_eq_None_iff)
  then show ?thesis by (simp add: ex_json_env_def ex_loads_def)
qed








theorem parse_failure_fallback_witness:
  "loads ex_json_env (select_json ex_json_env (strip (U ''  plain text  ''))) = DecodeError
   \<and> extract_response ex_json_env (U ''  plain text  '') = JStr (U ''plain text'')
   \<and> loads ex_json_env (select_json ex_json_env (strip ex_digits)) = LoadError ValueError
   \<and> extract_response ex_json_env ex_digits
       = error_text ex_json_env ValueError (JStr ex_digits)"
proof -
  have s: "strip (U ''  plain text  '') = U ''plain text''"
    by (simp add: str_simps)
  have sel: "select_json ex_json_env (U ''plain text'') = U ''plain text''"
    by (rule select_json_brace_free) (simp add: brace_free_def U_def LB_def RB_def)
  have ne: "U ''plain text'' \<noteq> []" by (simp add: U_def)
  have sd: "strip ex_digits = ex_digits"
    by (rule strip_fixed) (simp add: ex_digits_def py_isspace_def)
  have seld: "select_json ex_json_env ex_digits = ex_digits"
    by (rule select_json_brace_free) (simp add: brace_free_def ex_digits_def LB_def RB_def)
  show ?thesis
    using parse_failure_fallback [of ex_json_env "U ''  plain text  ''" init_state ValueError]
      parse_failure_fallback [of ex_json_env ex_digits init_state ValueError]
      ex_obj_loads(5) ex_digits_loads ne
    by (simp add: s sel sd seld)
qed

text \<open>
  C8 as stated fails on an empty primary output: the parse fails and the message is
  \<open>No response\<close>, not the (empty) trimmed text.
\<close>

theorem parse_failure_counterexample:
  "loads ex_json_env (select_json ex_json_env (strip [])) = DecodeError
   \<and> extract_response ex_json_env [] = JStr (U ''No response'')
   \<and> JStr (U ''No response'') \<noteq> JStr (strip [])"
proof -
  have sel: "select_json ex_json_env [] = []"
    by (simp add: select_json_def json_candidates_def Let_def)
  show ?thesis
    by (simp add: extract_response_def parse_response_def sel ex_obj_loads(6) Let_def U_def)
qed



section \<open>The send path (\<open>send_message\<close>)\<close>

text \<open>
  What one round of the polling loop (lines 521--557) observes of the child: it has
  exited, with its return code and the output still unread on both pipes, or it is
  still running, with the data read from the pipes in this round (empty when none).
  A child is the sequence of these observations.
\<close>

datatype obs = Exited int pystr pystr | Running pystr pystr

record poll_acc =
  acc_state :: state
  stdout_lines :: "pystr list"
  stderr_lines :: "pystr list"

definition take_output :: "env \<Rightarrow> pystr \<Rightarrow> pystr \<Rightarrow> poll_acc \<Rightarrow> poll_acc" where
  "take_output e out err a =
     \<lparr>acc_state = (if err \<noteq> [] then process_system_messages e (acc_state a) err
                    else acc_state a),
      stdout_lines = (if out \<noteq> [] then stdout_lines a @ [out] else stdout_lines a),
      stderr_lines = (if err \<noteq> [] then stderr_lines a @ [err] else stderr_lines a)\<rparr>"

text \<open>
  The loop \<open>while True\<close>: it ends only in the round that finds the child exited. No
  round counts time, and nothing in it raises \<open>TimeoutExpired\<close>.
\<close>

partial_function (option) poll_loop ::
    "env \<Rightarrow> (nat \<Rightarrow> obs) \<Rightarrow> nat \<Rightarrow> poll_acc \<Rightarrow> (int \<times> poll_acc) option" where
  "poll_loop e child n a =
     (case child n of
        Exited return_code out err \<Rightarrow> Some (return_code, take_output e out err a)
      | Running out err \<Rightarrow> poll_loop e child (n + 1) (take_output e out err a))"

text \<open>
  Lines 447--714. \<open>elapsed\<close> is the duration the call measures for itself. In the raw
  view the message goes to the pass-through process and the state is not touched. The
  handler of \<open>subprocess.TimeoutExpired\<close> (lines 686--694) has no branch here: no
  statement of the \<open>try\<close> block raises that exception.
\<close>

definition send_message :: "env \<Rightarrow> (nat \<Rightarrow> obs) \<Rightarrow> real \<Rightarrow> state \<Rightarrow> pystr \<Rightarrow> state option" where
  "send_message e child elapsed st message =
     (if view_mode st = U ''claude_raw'' then Some st
      else
        let st1 = update_status e (st\<lparr>thinking := True\<rparr>);
            st2 = append_message (mk_message e (U ''user'') (JStr message)) st1
        in case poll_loop e child 0
                  \<lparr>acc_state = st2, stdout_lines = [], stderr_lines = []\<rparr> of
             None \<Rightarrow> None
           | Some (return_code, a) \<Rightarrow>
               let full_stdout = concat (stdout_lines a);
                   full_stderr = concat (stderr_lines a);
                   st3 = (if return_code = 0 then send_zero_exit e (acc_state a) full_stdout
                          else append_message (mk_message e (U ''assistant'')
                                 (JStr (U ''Error: '' @ (if full_stderr \<noteq> [] then full_stderr
                                                          else U ''Command failed''))))
                                 (acc_state a));
                   st4 = (clear_activity (st3\<lparr>thinking := False\<rparr>))
                           \<lparr>last_response_time := elapsed,
                            total_messages_processed := total_messages_processed st3 + 1\<rparr>
               in Some (update_status e st4))"

text \<open>A child that never exits and writes nothing.\<close>

definition silent_child :: "nat \<Rightarrow> obs" where
  "silent_child n = Running [] []"

lemma poll_loop_returns_after_exit:
  assumes "poll_loop e child n a = Some r"
  shows "\<exists>m\<ge>n. \<exists>rc out err. child m = Exited rc out err"
proof (rule poll_loop.raw_induct
    [where P = "\<lambda>e child n a r. \<exists>m\<ge>n. \<exists>rc out err. child m = Exited rc out err",
      OF _ assms])
  fix f :: "env \<Rightarrow> (nat \<Rightarrow> obs) \<Rightarrow> nat \<Rightarrow> poll_acc \<Rightarrow> (int \<times> poll_acc) option"
    and e child n a r
  assume ih: "\<And>e child n a r. f e child n a = Some r
      \<Longrightarrow> \<exists>m\<ge>n. \<exists>rc out err. child m = Exited rc out err"
    and step: "(case child n of
        Exited return_code out err \<Rightarrow> Some (return_code, take_output e out err a)
      | Running out err \<Rightarrow> f e child (n + 1) (take_output e out err a)) = Some r"
  show "\<exists>m\<ge>n. \<exists>rc out err. child m = Exited rc out err"
  proof (cases "child n")
    case (Exited rc out err)
    then show ?thesis by blast
  next
    case (Running out err)
    with step have "f e child (n + 1) (take_output e out err a) = Some r" by simp
    from ih [OF this] obtain m where "m \<ge> n + 1" "\<exists>rc out err. child m = Exited rc out err"
      by blast
    then show ?thesis by (meson add_leD1)
  qed
qed

lemma poll_loop_exit_now:
  "child n = Exited rc out err \<Longrightarrow> poll_loop e child n a = Some (rc, take_output e out err a)"
  by (subst poll_loop.simps) simp

lemma poll_loop_silent: "poll_loop e silent_child n a = None"
proof (cases "poll_loop e silent_child n a")
  case None
  then show ?thesis .
next
  case (Some r)
  from poll_loop_returns_after_exit [OF this] show ?thesis by (simp add: silent_child_def)
qed

lemma poll_loop_returns:
  "child (n + k) = Exited rc out err \<Longrightarrow> \<forall>j<k. \<exists>o1 e1. child (n + j) = Running o1 e1
     \<Longrightarrow> \<exists>r. poll_loop e child n a = Some r"
proof (induction k arbitrary: n a)
  case 0
  then show ?case by (simp add: poll_loop_exit_now)
next
  case (Suc k)
  from Suc.prems(2) [rule_format, of 0] obtain o1 e1 where r: "child n = Running o1 e1"
    by auto
  have x: "child (Suc n + k) = Exited rc out err" using Suc.prems(1) by simp
  have "\<exists>o1 e1. child (Suc n + j) = Running o1 e1" if "j < k" for j
    using Suc.prems(2) [rule_format, of "Suc j"] that by simp
  then have y: "\<forall>j<k. \<exists>o1 e1. child (Suc n + j) = Running o1 e1" by blast
  from Suc.IH [OF x y] obtain res
    where "poll_loop e child (Suc n) (take_output e o1 e1 a) = Some res" by blast
  then have "poll_loop e child n a = Some res"
    using r by (subst poll_loop.simps) simp
  then show ?case by blast
qed

text \<open>
  C3. The claim asks for a bounded wait: a call whose child has not exited within the
  bound is reported as \<open>Error: Request timed out\<close> and the child is killed. The
  code logs a timeout of 360 and has the handler for it, but the loop has no bound:
  against a child that never exits the call never returns, so no message is appended
  and nothing is killed.
\<close>

theorem send_never_times_out:
  "send_message ex_env silent_child 0 init_state (U ''ping'') = None"
  by (simp add: send_message_def poll_loop_silent Let_def init_state_def U_def)



end
